theory Spec2Isabelle
  imports Complex_Main "HOL-Library.Multiset" "HOL-Library.AList"
begin

section \<open>Common Python notions\<close>

text \<open>
  An invocation of a caller-supplied callable either returns a value or raises.
  The type \<open>'e\<close> stands for the instances of Python's \<open>Exception\<close> class that the
  callable may raise.
\<close>

datatype ('e, 'a) outcome = Returns 'a | Raises 'e

text \<open>
  What a call into this library may raise: the exception of the wrapped operation, or
  one of the interpreter's or library's own errors.  The two \<open>RuntimeError\<close>s of
  \<open>stability.py\<close> are told apart by their message in the source.
\<close>

datatype 'e error =
    Raised 'e
  | TypeError
  | ValueError
  | OverflowError
  | KeyError
  | TimeoutError
  | RuntimeError_breaker_open
  | RuntimeError_pool_full

section \<open>stability.py: RetryManager\<close>

datatype RetryStrategy = FIXED | EXPONENTIAL | LINEAR | CUSTOM

text \<open>
  \<open>RetryConfig.exceptions\<close> is a tuple of exception classes, used only in
  \<open>except self.config.exceptions\<close>: it is the predicate "is an instance of one of them".
  Python floats are modelled as reals.
\<close>

record 'e RetryConfig =
  max_retries :: int
  base_delay :: real
  max_delay :: real
  backoff_factor :: real
  strategy :: RetryStrategy
  jitter :: bool
  exceptions :: "'e \<Rightarrow> bool"

text \<open>The entry of \<open>_retry_stats\<close> for one function name: the dictionary
  \<open>{'success': _, 'failure': _, 'retries': _}\<close>.\<close>

record RetryStat =
  stat_success :: int
  stat_failure :: int
  stat_retries :: int

definition new_stat :: RetryStat where
  "new_stat = \<lparr>stat_success = 0, stat_failure = 0, stat_retries = 0\<rparr>"

text \<open>
  What \<open>execute\<close> changes and what it does to the outside: the statistics dictionary,
  the number of invocations of the wrapped function made so far, and the arguments of
  the calls of \<open>time.sleep\<close>, oldest first.
\<close>

record retry_world =
  retry_stats :: "string \<rightharpoonup> RetryStat"
  calls :: nat
  sleeps :: "real list"

text \<open>\<open>random.uniform(a, b)\<close> is \<open>a + (b - a) * random()\<close>, where \<open>random()\<close> draws
  \<open>r\<close> from \<open>[0, 1)\<close>.\<close>

definition uniform :: "real \<Rightarrow> real \<Rightarrow> real \<Rightarrow> real" where
  "uniform a b r = a + (b - a) * r"

text \<open>
  Python floats are modelled as reals, with the two places where float arithmetic
  raises instead of returning: the conversion of an integer to a float and the power
  \<open>x ** n\<close> raise \<open>OverflowError\<close> when the result rounds to a value beyond the largest
  finite double, that is, when its magnitude reaches \<open>2^1024 - 2^970\<close>.  (Products and
  sums do not raise.)
\<close>

definition float_limit :: real where
  "float_limit = 2 ^ 1024 - 2 ^ 970"

text \<open>In both, \<open>None\<close> stands for the \<open>OverflowError\<close>.\<close>

definition float_of_nat :: "nat \<Rightarrow> real option" where
  "float_of_nat n = (if float_limit \<le> real n then None else Some (real n))"

definition float_pow :: "real \<Rightarrow> nat \<Rightarrow> real option" where
  "float_pow x n =
     (case float_of_nat n of
        None \<Rightarrow> None
      | Some y \<Rightarrow> if float_limit \<le> \<bar>x ^ n\<bar> then None else Some (x ^ n))"

text \<open>The delay of \<open>_calculate_delay\<close> before the clamp; the attempt index comes from
  \<open>range\<close>, so it is a natural number.\<close>

definition strategy_delay :: "'e RetryConfig \<Rightarrow> nat \<Rightarrow> 'e error + real" where
  "strategy_delay config attempt =
     (case strategy config of
        FIXED \<Rightarrow> Inr (base_delay config)
      | EXPONENTIAL \<Rightarrow>
          (case float_pow (backoff_factor config) attempt of
             None \<Rightarrow> Inl OverflowError
           | Some p \<Rightarrow> Inr (base_delay config * p))
      | LINEAR \<Rightarrow>
          (case float_of_nat (attempt + 1) of
             None \<Rightarrow> Inl OverflowError
           | Some k \<Rightarrow> Inr (base_delay config * k))
      | CUSTOM \<Rightarrow> Inr (base_delay config))"

definition calculate_delay :: "'e RetryConfig \<Rightarrow> real \<Rightarrow> nat \<Rightarrow> 'e error + real" where
  "calculate_delay config r attempt =
     (case strategy_delay config attempt of
        Inl err \<Rightarrow> Inl err
      | Inr delay0 \<Rightarrow>
          (let delay = min delay0 (max_delay config)
           in if jitter config then Inr (delay + uniform (1/10) (3/10) r * delay) else Inr delay))"

text \<open>
  \<open>time.sleep(delay)\<close> converts the float to a 64-bit count of nanoseconds and raises
  \<open>OverflowError\<close> when it does not fit, then raises \<open>ValueError\<close> when it is negative.
\<close>

definition sleep_too_long :: "real \<Rightarrow> bool" where
  "sleep_too_long delay = (2 ^ 63 \<le> \<bar>delay\<bar> * 10 ^ 9)"

text \<open>The two bookkeeping steps: create the entry when the name is new, then add one.\<close>

definition stat_entry :: "(string \<rightharpoonup> RetryStat) \<Rightarrow> string \<Rightarrow> RetryStat" where
  "stat_entry stats func_name = (case stats func_name of None \<Rightarrow> new_stat | Some s \<Rightarrow> s)"

definition record_success :: "string \<Rightarrow> (string \<rightharpoonup> RetryStat) \<Rightarrow> (string \<rightharpoonup> RetryStat)" where
  "record_success func_name stats =
     (let s = stat_entry stats func_name
      in stats(func_name \<mapsto> s\<lparr>stat_success := stat_success s + 1\<rparr>))"

definition record_failure :: "string \<Rightarrow> (string \<rightharpoonup> RetryStat) \<Rightarrow> (string \<rightharpoonup> RetryStat)" where
  "record_failure func_name stats =
     (let s = stat_entry stats func_name
      in stats(func_name \<mapsto> s\<lparr>stat_failure := stat_failure s + 1\<rparr>))"

definition record_retry :: "string \<Rightarrow> (string \<rightharpoonup> RetryStat) \<Rightarrow> (string \<rightharpoonup> RetryStat)" where
  "record_retry func_name stats =
     (let s = stat_entry stats func_name
      in stats(func_name \<mapsto> s\<lparr>stat_retries := stat_retries s + 1\<rparr>))"

text \<open>
  The body of \<open>for attempt in range(max_retries + 1)\<close>, as a recursion over the
  remaining attempt indices.  \<open>func k\<close> is what the wrapped function does at its
  invocation number \<open>k\<close> (counted from the start of the world), \<open>rnd attempt\<close> is the
  draw of \<open>random()\<close> made for that attempt.  An exception raised inside the \<open>except\<close>
  handler, by \<open>_calculate_delay\<close> or by \<open>time.sleep\<close>, leaves \<open>execute\<close>.  After the
  loop, \<open>raise last_exception\<close> raises \<open>TypeError\<close> when nothing was ever caught
  (\<open>last_exception\<close> is still \<open>None\<close>).
\<close>

fun execute_loop ::
  "'e RetryConfig \<Rightarrow> string \<Rightarrow> (nat \<Rightarrow> ('e, 'a) outcome) \<Rightarrow> (nat \<Rightarrow> real) \<Rightarrow>
   nat list \<Rightarrow> 'e option \<Rightarrow> retry_world \<Rightarrow> retry_world \<times> ('e error + 'a)" where
  "execute_loop config func_name func rnd [] last_exception w =
     (w, case last_exception of None \<Rightarrow> Inl TypeError | Some e \<Rightarrow> Inl (Raised e))"
| "execute_loop config func_name func rnd (attempt # rest) last_exception w =
     (let w1 = w\<lparr>calls := Suc (calls w)\<rparr> in
      case func (calls w) of
        Returns result \<Rightarrow>
          (w1\<lparr>retry_stats := record_success func_name (retry_stats w1)\<rparr>, Inr result)
      | Raises e \<Rightarrow>
          if exceptions config e then
            (let w2 = w1\<lparr>retry_stats := record_failure func_name (retry_stats w1)\<rparr> in
             if int attempt < max_retries config then
               (case calculate_delay config (rnd attempt) attempt of
                  Inl err \<Rightarrow> (w2, Inl err)
                | Inr delay \<Rightarrow>
                    if sleep_too_long delay then (w2, Inl OverflowError)
                    else if delay < 0 then (w2, Inl ValueError)
                    else
                      execute_loop config func_name func rnd rest (Some e)
                        (w2\<lparr>sleeps := sleeps w2 @ [delay],
                            retry_stats := record_retry func_name (retry_stats w2)\<rparr>))
             else (w2, Inl (Raised e)))
          else (w1, Inl (Raised e)))"

definition execute ::
  "'e RetryConfig \<Rightarrow> string \<Rightarrow> (nat \<Rightarrow> ('e, 'a) outcome) \<Rightarrow> (nat \<Rightarrow> real) \<Rightarrow>
   retry_world \<Rightarrow> retry_world \<times> ('e error + 'a)" where
  "execute config func_name func rnd w =
     execute_loop config func_name func rnd [0..<nat (max_retries config + 1)] None w"

text \<open>The delay slept after the failed attempt \<open>i\<close>, when it can be computed.\<close>

definition delay_of :: "'e RetryConfig \<Rightarrow> (nat \<Rightarrow> real) \<Rightarrow> nat \<Rightarrow> real" where
  "delay_of config rnd i =
     (case calculate_delay config (rnd i) i of Inl err \<Rightarrow> 0 | Inr delay \<Rightarrow> delay)"

text \<open>The delay after the failed attempt \<open>i\<close> is computed without an error and
  \<open>time.sleep\<close> accepts it.\<close>

definition can_sleep :: "'e RetryConfig \<Rightarrow> (nat \<Rightarrow> real) \<Rightarrow> nat \<Rightarrow> bool" where
  "can_sleep config rnd i =
     (case calculate_delay config (rnd i) i of
        Inl err \<Rightarrow> False
      | Inr delay \<Rightarrow> \<not> sleep_too_long delay \<and> 0 \<le> delay)"

text \<open>
  The world after \<open>m\<close> failed attempts \<open>a, a + 1, \<dots>\<close> that were each followed by a
  retry: \<open>m\<close> more invocations, \<open>m\<close> sleeps, and \<open>m\<close> failures and retries recorded.
\<close>

definition failed_attempts ::
  "'e RetryConfig \<Rightarrow> string \<Rightarrow> (nat \<Rightarrow> real) \<Rightarrow> nat \<Rightarrow> nat \<Rightarrow> retry_world \<Rightarrow> retry_world" where
  "failed_attempts config func_name rnd a m w =
     w\<lparr>calls := calls w + m,
       sleeps := sleeps w @ map (delay_of config rnd) [a..<a + m],
       retry_stats := ((record_retry func_name \<circ> record_failure func_name) ^^ m) (retry_stats w)\<rparr>"

section \<open>stability.py: ConnectionPool\<close>

record ConnectionInfo =
  id_conn :: string
  created_at :: real
  last_used :: real
  is_active :: bool
  metadata :: "(string \<times> string) list"

text \<open>
  \<open>_connections\<close> is a dictionary; Python dictionaries keep insertion order and
  \<open>_acquire_connection\<close> iterates over it, so it is an association list: assigning to
  a key that is present keeps its place, a new key goes to the end
  (\<^const>\<open>AList.update\<close>), \<open>del\<close> removes the key (\<^const>\<open>AList.delete\<close>).
  \<open>self_id\<close> is \<open>id(self)\<close>.
\<close>

record ConnectionPool =
  max_connections :: int
  connection_timeout :: real
  idle_timeout :: real
  cleanup_interval :: real
  connections :: "(string \<times> ConnectionInfo) list"
  self_id :: nat

definition ConnectionPool_init :: "int \<Rightarrow> real \<Rightarrow> real \<Rightarrow> real \<Rightarrow> nat \<Rightarrow> ConnectionPool" where
  "ConnectionPool_init max_conns conn_timeout idle cleanup_iv ident =
     \<lparr>max_connections = max_conns, connection_timeout = conn_timeout, idle_timeout = idle,
      cleanup_interval = cleanup_iv, connections = [], self_id = ident\<rparr>"

text \<open>Decimal printing, for \<open>f"conn_{int(time.time() * 1000)}_{id(self)}"\<close>; \<open>int()\<close>
  truncates towards zero.\<close>

fun str_nat :: "nat \<Rightarrow> string" where
  "str_nat n =
     (if n < 10 then [char_of (48 + n)] else str_nat (n div 10) @ [char_of (48 + n mod 10)])"

declare str_nat.simps [simp del]

definition str_int :: "int \<Rightarrow> string" where
  "str_int i = (if i < 0 then CHR ''-'' # str_nat (nat (- i)) else str_nat (nat i))"

definition int_of_float :: "real \<Rightarrow> int" where
  "int_of_float x = (if 0 \<le> x then \<lfloor>x\<rfloor> else \<lceil>x\<rceil>)"

definition new_conn_id :: "ConnectionPool \<Rightarrow> real \<Rightarrow> string" where
  "new_conn_id self t = ''conn_'' @ str_int (int_of_float (t * 1000)) @ ''_'' @ str_nat (self_id self)"

text \<open>
  \<open>_acquire_connection\<close>.  \<open>now k\<close> is the value of the \<open>k\<close>-th call of \<open>time.time()\<close>
  made inside this call (one on the reuse path, three on the creation path).
\<close>

definition acquire_connection ::
  "ConnectionPool \<Rightarrow> (nat \<Rightarrow> real) \<Rightarrow> ConnectionPool \<times> (unit error + string)" where
  "acquire_connection self now =
     (case List.find (\<lambda>(conn_id, conn_info). is_active conn_info) (connections self) of
        Some (conn_id, conn_info) \<Rightarrow>
          (self\<lparr>connections :=
                  AList.update conn_id (conn_info\<lparr>last_used := now 0\<rparr>) (connections self)\<rparr>,
           Inr conn_id)
      | None \<Rightarrow>
          if int (length (connections self)) < max_connections self then
            (let conn_id = new_conn_id self (now 0);
                 conn_info = \<lparr>id_conn = conn_id, created_at = now 1, last_used = now 2,
                              is_active = True, metadata = []\<rparr>
             in (self\<lparr>connections := AList.update conn_id conn_info (connections self)\<rparr>,
                 Inr conn_id))
          else (self, Inl RuntimeError_pool_full))"

definition release_connection :: "ConnectionPool \<Rightarrow> string \<Rightarrow> real \<Rightarrow> ConnectionPool" where
  "release_connection self conn_id t =
     (case map_of (connections self) conn_id of
        Some conn_info \<Rightarrow>
          self\<lparr>connections := AList.update conn_id (conn_info\<lparr>last_used := t\<rparr>) (connections self)\<rparr>
      | None \<Rightarrow> self)"

definition remove_connection :: "ConnectionPool \<Rightarrow> string \<Rightarrow> ConnectionPool" where
  "remove_connection self conn_id =
     (if conn_id \<in> fst ` set (connections self)
      then self\<lparr>connections := AList.delete conn_id (connections self)\<rparr> else self)"

text \<open>\<open>_cleanup_expired_connections\<close>: collect the expired ids under the lock, then
  remove them one by one.\<close>

definition expired_connections :: "ConnectionPool \<Rightarrow> real \<Rightarrow> string list" where
  "expired_connections self current_time =
     map fst (filter (\<lambda>(conn_id, conn_info). current_time - last_used conn_info > idle_timeout self)
                (connections self))"

definition cleanup_expired_connections :: "ConnectionPool \<Rightarrow> real \<Rightarrow> ConnectionPool" where
  "cleanup_expired_connections self current_time =
     fold (\<lambda>conn_id s. remove_connection s conn_id) (expired_connections self current_time) self"

definition close :: "ConnectionPool \<Rightarrow> ConnectionPool" where
  "close self = self\<lparr>connections := []\<rparr>"

text \<open>The pool states that the methods of the class produce from a newly constructed
  pool.\<close>

inductive pool_reachable :: "ConnectionPool \<Rightarrow> bool" where
  init: "pool_reachable (ConnectionPool_init max_conns conn_timeout idle cleanup_iv ident)"
| acquire: "pool_reachable p \<Longrightarrow> pool_reachable (fst (acquire_connection p now))"
| release: "pool_reachable p \<Longrightarrow> pool_reachable (release_connection p conn_id t)"
| remove: "pool_reachable p \<Longrightarrow> pool_reachable (remove_connection p conn_id)"
| cleanup: "pool_reachable p \<Longrightarrow> pool_reachable (cleanup_expired_connections p t)"
| closed: "pool_reachable p \<Longrightarrow> pool_reachable (close p)"

definition all_active :: "ConnectionPool \<Rightarrow> bool" where
  "all_active self = list_all (\<lambda>(conn_id, conn_info). is_active conn_info) (connections self)"

definition within_capacity :: "ConnectionPool \<Rightarrow> bool" where
  "within_capacity self = (int (length (connections self)) \<le> max_connections self)"

text \<open>All records are flagged active and there is at most one of them.\<close>

definition single_active :: "ConnectionPool \<Rightarrow> bool" where
  "single_active p = (all_active p \<and> length (connections p) \<le> 1)"

section \<open>stability.py: HealthChecker\<close>

datatype HealthStatus = HEALTHY | UNHEALTHY | DEGRADED | UNKNOWN

text \<open>
  A probe reads the outside world \<open>'w\<close> of the run in which it is called and returns a
  truth value (after \<open>bool(result)\<close>) or raises, which includes the \<open>TimeoutError\<close> of the
  alarm handler.
\<close>

record ('w, 'e) HealthCheck =
  name :: string
  check_func :: "'w \<Rightarrow> ('e, bool) outcome"
  timeout :: real
  interval :: real
  failure_threshold :: int
  recovery_threshold :: int

text \<open>\<open>_checks\<close> is a dictionary in insertion order; the two counter dictionaries are
  only looked up by key.\<close>

record ('w, 'e) HealthChecker =
  checks :: "(string \<times> ('w, 'e) HealthCheck) list"
  status_history :: "(real \<times> string \<times> HealthStatus) list"
  current_status :: HealthStatus
  failure_counts :: "string \<rightharpoonup> int"
  recovery_counts :: "string \<rightharpoonup> int"

definition HealthChecker_init :: "('w, 'e) HealthChecker" where
  "HealthChecker_init =
     \<lparr>checks = [], status_history = [], current_status = UNKNOWN,
      failure_counts = Map.empty, recovery_counts = Map.empty\<rparr>"

definition add_check :: "('w, 'e) HealthChecker \<Rightarrow> ('w, 'e) HealthCheck \<Rightarrow> ('w, 'e) HealthChecker" where
  "add_check self check =
     self\<lparr>checks := AList.update (name check) check (checks self),
          failure_counts := (failure_counts self)(name check \<mapsto> 0),
          recovery_counts := (recovery_counts self)(name check \<mapsto> 0)\<rparr>"

text \<open>\<open>remove_check\<close>: the three \<open>del\<close> statements run in order, and a \<open>del\<close> of a
  missing key raises \<open>KeyError\<close>.\<close>

definition remove_check ::
  "('w, 'e) HealthChecker \<Rightarrow> string \<Rightarrow> ('w, 'e) HealthChecker \<times> 'e error option" where
  "remove_check self nm =
     (if nm \<in> fst ` set (checks self) then
        (let self1 = self\<lparr>checks := AList.delete nm (checks self)\<rparr> in
         if failure_counts self1 nm = None then (self1, Some KeyError)
         else
           (let self2 = self1\<lparr>failure_counts := (failure_counts self1)(nm := None)\<rparr> in
            if recovery_counts self2 nm = None then (self2, Some KeyError)
            else (self2\<lparr>recovery_counts := (recovery_counts self2)(nm := None)\<rparr>, None)))
      else (self, None))"

text \<open>
  \<open>_execute_check\<close> installs a \<open>SIGALRM\<close> handler, which raises when it is not done on
  the main thread of a system that has the signal (\<open>alarm_ok\<close> is false); every
  exception, that one included, is caught and turned into \<open>False\<close>.
\<close>

definition execute_check :: "bool \<Rightarrow> ('w, 'e) HealthCheck \<Rightarrow> 'w \<Rightarrow> bool" where
  "execute_check alarm_ok check w =
     (if alarm_ok then (case check_func check w of Returns result \<Rightarrow> result | Raises e \<Rightarrow> False)
      else False)"

text \<open>The \<open>except Exception\<close> handler of the loop body of \<open>check_health\<close>; its own
  \<open>+= 1\<close> raises \<open>KeyError\<close> when the counter is missing, and nothing catches that.\<close>

definition check_handler ::
  "string \<Rightarrow> ('w, 'e) HealthChecker \<times> int \<Rightarrow> (('w, 'e) HealthChecker \<times> int) \<times> 'e error option" where
  "check_handler nm st =
     (case st of (self, healthy_checks) \<Rightarrow>
        (case failure_counts self nm of
           None \<Rightarrow> (st, Some KeyError)
         | Some f \<Rightarrow>
             ((self\<lparr>failure_counts := (failure_counts self)(nm \<mapsto> f + 1),
                    recovery_counts := (recovery_counts self)(nm \<mapsto> 0)\<rparr>, healthy_checks),
              None)))"

text \<open>One iteration of \<open>for name, check in self._checks.items()\<close>.\<close>

definition check_one ::
  "bool \<Rightarrow> 'w \<Rightarrow> string \<times> ('w, 'e) HealthCheck \<Rightarrow> ('w, 'e) HealthChecker \<times> int \<Rightarrow>
   (('w, 'e) HealthChecker \<times> int) \<times> 'e error option" where
  "check_one alarm_ok w entry st =
     (case (entry, st) of ((nm, check), (self, healthy_checks)) \<Rightarrow>
        if execute_check alarm_ok check w then
          (let self1 = self\<lparr>failure_counts := (failure_counts self)(nm \<mapsto> 0)\<rparr> in
           case recovery_counts self1 nm of
             Some r \<Rightarrow>
               ((self1\<lparr>recovery_counts := (recovery_counts self1)(nm \<mapsto> r + 1)\<rparr>,
                 healthy_checks + 1), None)
           | None \<Rightarrow> check_handler nm (self1, healthy_checks))
        else
          (case failure_counts self nm of
             Some f \<Rightarrow>
               ((self\<lparr>failure_counts := (failure_counts self)(nm \<mapsto> f + 1),
                      recovery_counts := (recovery_counts self)(nm \<mapsto> 0)\<rparr>, healthy_checks),
                None)
           | None \<Rightarrow> check_handler nm (self, healthy_checks)))"

fun run_checks ::
  "bool \<Rightarrow> 'w \<Rightarrow> (string \<times> ('w, 'e) HealthCheck) list \<Rightarrow> ('w, 'e) HealthChecker \<times> int \<Rightarrow>
   (('w, 'e) HealthChecker \<times> int) \<times> 'e error option" where
  "run_checks alarm_ok w [] st = (st, None)"
| "run_checks alarm_ok w (entry # rest) st =
     (case check_one alarm_ok w entry st of
        (st', Some err) \<Rightarrow> (st', Some err)
      | (st', None) \<Rightarrow> run_checks alarm_ok w rest st')"

text \<open>The classification by \<open>health_ratio = healthy_checks / total_checks\<close>.\<close>

definition overall_status :: "int \<Rightarrow> int \<Rightarrow> HealthStatus" where
  "overall_status healthy_checks total_checks =
     (let health_ratio = real_of_int healthy_checks / real_of_int total_checks in
      if health_ratio \<ge> 9/10 then HEALTHY
      else if health_ratio \<ge> 1/2 then DEGRADED
      else UNHEALTHY)"

text \<open>\<open>history[-500:]\<close>\<close>

definition last_500 :: "'a list \<Rightarrow> 'a list" where
  "last_500 history = drop (length history - 500) history"

text \<open>\<open>check_health\<close>; \<open>now\<close> is the value of \<open>time.time()\<close> when the history entry is
  written.\<close>

definition check_health ::
  "bool \<Rightarrow> 'w \<Rightarrow> real \<Rightarrow> ('w, 'e) HealthChecker \<Rightarrow>
   ('w, 'e) HealthChecker \<times> ('e error + HealthStatus)" where
  "check_health alarm_ok w now self =
     (if checks self = [] then (self\<lparr>current_status := UNKNOWN\<rparr>, Inr UNKNOWN)
      else
        (let total_checks = int (length (checks self)) in
         case run_checks alarm_ok w (checks self) (self, 0) of
           ((self1, healthy_checks), Some err) \<Rightarrow> (self1, Inl err)
         | ((self1, healthy_checks), None) \<Rightarrow>
             (let status = overall_status healthy_checks total_checks;
                  self2 = self1\<lparr>current_status := status\<rparr>;
                  self3 = self2\<lparr>status_history := status_history self2 @ [(now, ''overall'', status)]\<rparr>;
                  self4 = (if length (status_history self3) > 1000
                           then self3\<lparr>status_history := last_500 (status_history self3)\<rparr>
                           else self3)
              in (self4, Inr status))))"

text \<open>Every registered check has both of its counters, as \<open>add_check\<close> and
  \<open>remove_check\<close> leave it.\<close>

definition counters_present :: "('w, 'e) HealthChecker \<Rightarrow> bool" where
  "counters_present self =
     list_all (\<lambda>(nm, check). failure_counts self nm \<noteq> None \<and> recovery_counts self nm \<noteq> None)
       (checks self)"

text \<open>The number of registered probes that pass in the run.\<close>

definition passed :: "bool \<Rightarrow> 'w \<Rightarrow> ('w, 'e) HealthChecker \<Rightarrow> nat" where
  "passed alarm_ok w self =
     length (filter (\<lambda>(nm, check). execute_check alarm_ok check w) (checks self))"

text \<open>Both counters of a name are there.\<close>

definition has_counters :: "('w, 'e) HealthChecker \<Rightarrow> string \<Rightarrow> bool" where
  "has_counters self nm = (failure_counts self nm \<noteq> None \<and> recovery_counts self nm \<noteq> None)"

section \<open>stability.py: CircuitBreaker\<close>

datatype CircuitState = CLOSED | OPEN | HALF_OPEN

text \<open>\<open>expected_exception\<close> is an exception class, used only in
  \<open>except self.expected_exception\<close>.\<close>

record 'e CircuitBreaker =
  failure_threshold :: int
  recovery_timeout :: real
  expected_exception :: "'e \<Rightarrow> bool"
  state :: CircuitState
  failure_count :: int
  last_failure_time :: real
  success_count :: int

definition CircuitBreaker_init :: "int \<Rightarrow> real \<Rightarrow> ('e \<Rightarrow> bool) \<Rightarrow> 'e CircuitBreaker" where
  "CircuitBreaker_init threshold recovery expected =
     \<lparr>failure_threshold = threshold, recovery_timeout = recovery, expected_exception = expected,
      state = CLOSED, failure_count = 0, last_failure_time = 0, success_count = 0\<rparr>"

definition on_success :: "'e CircuitBreaker \<Rightarrow> 'e CircuitBreaker" where
  "on_success self =
     (if state self = HALF_OPEN then
        (let self1 = self\<lparr>success_count := success_count self + 1\<rparr> in
         if success_count self1 \<ge> 2 then self1\<lparr>state := CLOSED, failure_count := 0\<rparr> else self1)
      else self\<lparr>failure_count := 0\<rparr>)"

definition on_failure :: "'e CircuitBreaker \<Rightarrow> real \<Rightarrow> 'e CircuitBreaker" where
  "on_failure self now =
     (let self1 = self\<lparr>failure_count := failure_count self + 1, last_failure_time := now\<rparr> in
      if failure_count self1 \<ge> failure_threshold self1 then self1\<lparr>state := OPEN\<rparr> else self1)"

text \<open>
  \<open>call\<close>.  \<open>t_check\<close> is the value of \<open>time.time()\<close> read in the test of the open
  state, \<open>t_fail\<close> the one read by \<open>_on_failure\<close>; \<open>func\<close> is what the wrapped function
  does if it is invoked.  The result carries the number of invocations made.
\<close>

definition call ::
  "'e CircuitBreaker \<Rightarrow> real \<Rightarrow> real \<Rightarrow> ('e, 'a) outcome \<Rightarrow>
   'e CircuitBreaker \<times> nat \<times> ('e error + 'a)" where
  "call self t_check t_fail func =
     (if state self = OPEN \<and> \<not> (t_check - last_failure_time self > recovery_timeout self)
      then (self, 0, Inl RuntimeError_breaker_open)
      else
        (let self1 = (if state self = OPEN then self\<lparr>state := HALF_OPEN, success_count := 0\<rparr>
                      else self)
         in case func of
              Returns result \<Rightarrow> (on_success self1, 1, Inr result)
            | Raises e \<Rightarrow>
                if expected_exception self1 e then (on_failure self1 t_fail, 1, Inl (Raised e))
                else (self1, 1, Inl (Raised e))))"

definition reset :: "'e CircuitBreaker \<Rightarrow> 'e CircuitBreaker" where
  "reset self = self\<lparr>state := CLOSED, failure_count := 0, success_count := 0, last_failure_time := 0\<rparr>"

text \<open>A sequence of calls on one breaker, each with its two clock readings and the
  behaviour of the function passed; the total number of invocations is returned.\<close>

fun call_seq ::
  "'e CircuitBreaker \<Rightarrow> (real \<times> real \<times> ('e, 'a) outcome) list \<Rightarrow> 'e CircuitBreaker \<times> nat" where
  "call_seq self [] = (self, 0)"
| "call_seq self ((t_check, t_fail, func) # rest) =
     (case call self t_check t_fail func of
        (self', k, r) \<Rightarrow> (case call_seq self' rest of (self'', m) \<Rightarrow> (self'', k + m)))"

text \<open>The breaker leaves the closed state only once the failure count has reached the
  threshold, and the success count is never negative.\<close>

definition breaker_inv :: "'e CircuitBreaker \<Rightarrow> bool" where
  "breaker_inv self =
     ((state self \<noteq> CLOSED \<longrightarrow> failure_threshold self \<le> failure_count self)
      \<and> 0 \<le> success_count self)"

text \<open>Every call of a sequence fails with an expected exception.\<close>

definition all_expected_failures ::
  "('e \<Rightarrow> bool) \<Rightarrow> (real \<times> real \<times> ('e, 'a) outcome) list \<Rightarrow> bool" where
  "all_expected_failures expected xs =
     list_all (\<lambda>(t_check, t_fail, func).
        case func of Returns result \<Rightarrow> False | Raises e \<Rightarrow> expected e) xs"

section \<open>stability.py and device.py: the check of a key\<close>

text \<open>
  \<open>InputValidator.validate_udid\<close> accepts a string of length 40 that \<open>int(udid, 16)\<close>
  parses.  Keys are ASCII strings here.  \<open>int(s, 16)\<close> skips white space on both
  sides, takes an optional sign and an optional prefix \<open>0x\<close> or \<open>0X\<close> (after which one
  underscore may stand), and then wants hexadecimal digits, with single underscores
  allowed between digits only.
\<close>

definition is_space :: "char \<Rightarrow> bool" where
  "is_space c = (of_char c \<in> {9, 10, 11, 12, 13, 32 :: nat})"

definition is_hex_digit :: "char \<Rightarrow> bool" where
  "is_hex_digit c =
     (let k = (of_char c :: nat)
      in (48 \<le> k \<and> k \<le> 57) \<or> (65 \<le> k \<and> k \<le> 70) \<or> (97 \<le> k \<and> k \<le> 102))"

fun no_double_underscore :: "string \<Rightarrow> bool" where
  "no_double_underscore (c # d # rest) =
     (\<not> (c = CHR ''_'' \<and> d = CHR ''_'') \<and> no_double_underscore (d # rest))"
| "no_double_underscore cs = True"

definition hex_digits_ok :: "string \<Rightarrow> bool" where
  "hex_digits_ok body =
     (body \<noteq> [] \<and> hd body \<noteq> CHR ''_'' \<and> last body \<noteq> CHR ''_'' \<and> no_double_underscore body)"

definition int16_parses :: "string \<Rightarrow> bool" where
  "int16_parses s =
     (let s1 = dropWhile is_space s;
          s2 = (case s1 of
                  [] \<Rightarrow> []
                | c # rest \<Rightarrow> if c = CHR ''+'' \<or> c = CHR ''-'' then rest else s1);
          s3 = (case s2 of
                  c # d # rest \<Rightarrow>
                    if c = CHR ''0'' \<and> (d = CHR ''x'' \<or> d = CHR ''X'')
                    then (case rest of
                            [] \<Rightarrow> []
                          | u # rest' \<Rightarrow> if u = CHR ''_'' then rest' else rest)
                    else s2
                | _ \<Rightarrow> s2);
          body = takeWhile (\<lambda>c. is_hex_digit c \<or> c = CHR ''_'') s3;
          trailing = dropWhile (\<lambda>c. is_hex_digit c \<or> c = CHR ''_'') s3
      in hex_digits_ok body \<and> list_all is_space trailing)"

definition validate_udid :: "string \<Rightarrow> bool" where
  "validate_udid dev = (length dev = 40 \<and> int16_parses dev)"

text \<open>
  \<open>Device(udid)\<close> raises \<open>ValueError\<close> with a message that ends in the key when the key
  is not valid; the message begins with a fixed text, given here by its UTF-8 bytes.
  A device is known by its key.
\<close>

definition invalid_udid_message :: "string \<Rightarrow> string" where
  "invalid_udid_message dev =
     map char_of [230, 151, 160, 230, 149, 136, 231, 154, 132 :: nat] @ ''UDID''
     @ map char_of [230, 160, 188, 229, 188, 143 :: nat] @ '': '' @ dev"

definition Device_init :: "string \<Rightarrow> string + string" where
  "Device_init dev = (if validate_udid dev then Inr dev else Inl (invalid_udid_message dev))"

section \<open>batch.py: BatchOperator\<close>

text \<open>\<open>result: Any\<close> and \<open>error: Optional[str]\<close>: \<open>None\<close> is Python's \<open>None\<close>.\<close>

record 'a BatchResult =
  udid :: string
  success :: bool
  result :: "'a option"
  error :: "string option"
  duration :: real

record BatchOperator =
  max_workers :: int
  timeout :: real

text \<open>
  \<open>_execute_single\<close>.  Inside the \<open>try\<close>, \<open>Device(udid)\<close> is built first and may raise
  its \<open>ValueError\<close>; then \<open>operation device\<close> returns a Python value (\<open>None\<close> or
  another) or raises.  \<open>str_exc\<close> is \<open>str\<close> on the exceptions of the operation,
  \<open>elapsed\<close> the difference of the two clock readings taken by the worker.
\<close>

definition execute_single ::
  "('e \<Rightarrow> string) \<Rightarrow> (string \<Rightarrow> ('e, 'a option) outcome) \<Rightarrow> real \<Rightarrow> string \<Rightarrow> 'a BatchResult" where
  "execute_single str_exc operation elapsed dev =
     (case Device_init dev of
        Inl message \<Rightarrow>
          \<lparr>udid = dev, success = False, result = None, error = Some message, duration = elapsed\<rparr>
      | Inr device \<Rightarrow>
          (case operation device of
             Returns r \<Rightarrow>
               \<lparr>udid = dev, success = True, result = r, error = None, duration = elapsed\<rparr>
           | Raises e \<Rightarrow>
               \<lparr>udid = dev, success = False, result = None, error = Some (str_exc e),
                duration = elapsed\<rparr>))"

text \<open>
  \<open>future_to_udid\<close>: one future per submitted key, in submission order, holding what
  \<open>future.result()\<close> gives once the worker is done: the worker's return value, or the
  exception that escaped it.
\<close>

definition submit_all ::
  "('e \<Rightarrow> string) \<Rightarrow> (string \<Rightarrow> ('e, 'a option) outcome) \<Rightarrow> (nat \<Rightarrow> real) \<Rightarrow> string list \<Rightarrow>
   (('e + 'a BatchResult) \<times> string) list" where
  "submit_all str_exc operation elapsed udids =
     map (\<lambda>(i, dev). (Inr (execute_single str_exc operation (elapsed i) dev), dev))
       (enumerate 0 udids)"

text \<open>The body of the \<open>for future in as_completed(\<dots>)\<close> loop, over the futures that
  \<open>as_completed\<close> yields, given by their submission index.  \<open>as_completed\<close> yields
  only futures of \<open>future_to_udid\<close>, so an index beyond the submitted keys stands for
  nothing and is passed over.\<close>

fun collect ::
  "('e \<Rightarrow> string) \<Rightarrow> (('e + 'a BatchResult) \<times> string) list \<Rightarrow> nat list \<Rightarrow>
   'a BatchResult list \<Rightarrow> 'a BatchResult list" where
  "collect str_exc future_to_udid [] results = results"
| "collect str_exc future_to_udid (i # rest) results =
     (if i < length future_to_udid then
        (case future_to_udid ! i of
           (Inr r, dev) \<Rightarrow> collect str_exc future_to_udid rest (results @ [r])
         | (Inl e, dev) \<Rightarrow>
             collect str_exc future_to_udid rest
               (results @ [\<lparr>udid = dev, success = False, result = None,
                            error = Some (str_exc e), duration = 0\<rparr>]))
      else collect str_exc future_to_udid rest results)"

text \<open>
  \<open>as_completed(future_to_udid, timeout=self.timeout)\<close>.  The thread pool and the
  operations decide when each future completes: \<open>finish i\<close> is the time, counted in
  seconds from the call of \<open>as_completed\<close>, at which the future of the \<open>i\<close>-th key
  completes.  The futures that complete within the timeout are yielded in the order
  of their completion (futures completing at the same instant: in the order of
  submission); when a future is still pending at the deadline, \<open>as_completed\<close> raises
  \<open>TimeoutError\<close> after them.
\<close>

definition in_time :: "real \<Rightarrow> (nat \<Rightarrow> real) \<Rightarrow> nat \<Rightarrow> bool" where
  "in_time deadline finish i = (finish i \<le> deadline)"

definition as_completed :: "nat \<Rightarrow> (nat \<Rightarrow> real) \<Rightarrow> real \<Rightarrow> nat list \<times> bool" where
  "as_completed n finish deadline =
     (sort_key finish (filter (in_time deadline finish) [0..<n]),
      list_all (in_time deadline finish) [0..<n])"

text \<open>
  \<open>execute_batch\<close>.  \<open>ThreadPoolExecutor(max_workers=self.max_workers)\<close> raises
  \<open>ValueError\<close> when \<open>max_workers\<close> is not positive, before anything is submitted.  The
  \<open>for\<close> statement over \<open>as_completed\<close> is outside the \<open>try\<close> of the loop body, so
  nothing in \<open>execute_batch\<close> catches its \<open>TimeoutError\<close>.
\<close>

definition execute_batch ::
  "BatchOperator \<Rightarrow> ('e \<Rightarrow> string) \<Rightarrow> string list \<Rightarrow> (string \<Rightarrow> ('e, 'a option) outcome) \<Rightarrow>
   (nat \<Rightarrow> real) \<Rightarrow> (nat \<Rightarrow> real) \<Rightarrow> 'e error + 'a BatchResult list" where
  "execute_batch self str_exc udids operation elapsed finish =
     (if max_workers self \<le> 0 then Inl ValueError
      else
        (let future_to_udid = submit_all str_exc operation elapsed udids in
         case as_completed (length udids) finish (timeout self) of
           (yielded, all_done) \<Rightarrow>
             (let results = collect str_exc future_to_udid yielded []
              in if all_done then Inr results else Inl TimeoutError)))"

text \<open>A successful result carries no error; a failed one carries an error and no
  value.\<close>

definition populated_exclusively :: "'a BatchResult \<Rightarrow> bool" where
  "populated_exclusively r =
     ((success r \<longrightarrow> error r = None) \<and> (\<not> success r \<longrightarrow> result r = None \<and> error r \<noteq> None))"

section \<open>Concrete configurations\<close>

text \<open>The pool of the default constructor arguments with room for ten, two and no
  records, and a clock that stands still.\<close>

definition pool_of :: "int \<Rightarrow> ConnectionPool" where
  "pool_of max_conns = ConnectionPool_init max_conns 30 300 60 7"

definition at_time :: "real \<Rightarrow> nat \<Rightarrow> real" where
  "at_time t k = t"

text \<open>A probe that returns a fixed truth value, and a checker with one passing and
  one failing probe registered.\<close>

definition probe :: "string \<Rightarrow> bool \<Rightarrow> (unit, unit) HealthCheck" where
  "probe nm passes =
     \<lparr>name = nm, check_func = (\<lambda>w. Returns passes), HealthCheck.timeout = 5, interval = 30,
      HealthCheck.failure_threshold = 3, recovery_threshold = 2\<rparr>"

definition two_checks :: "(unit, unit) HealthChecker" where
  "two_checks = add_check (add_check HealthChecker_init (probe ''a'' True)) (probe ''b'' False)"

text \<open>A breaker with threshold 3 and a recovery time of 60 seconds that expects the
  exception \<open>True\<close>, three failing calls, and the breaker after them: open, and half
  open.\<close>

definition breaker0 :: "bool CircuitBreaker" where
  "breaker0 = CircuitBreaker_init 3 60 (\<lambda>e. e)"

definition three_failures :: "(real \<times> real \<times> (bool, nat) outcome) list" where
  "three_failures = [(1, 1, Raises True), (2, 2, Raises True), (3, 3, Raises True)]"

definition breaker_open :: "bool CircuitBreaker" where
  "breaker_open =
     \<lparr>failure_threshold = 3, recovery_timeout = 60, expected_exception = (\<lambda>e. e),
      state = OPEN, failure_count = 3, last_failure_time = 3, success_count = 0\<rparr>"

definition breaker_half_open :: "bool CircuitBreaker" where
  "breaker_half_open = breaker_open\<lparr>state := HALF_OPEN\<rparr>"

text \<open>\<open>BatchOperator()\<close> with its default arguments, three valid keys, and an
  operation that raises on the second of them and returns 1 on every other device.\<close>

definition default_operator :: BatchOperator where
  "default_operator = \<lparr>max_workers = 5, timeout = 300\<rparr>"

definition key_a :: string where
  "key_a = ''00000000000000000000000000000000000000a1''"

definition key_b :: string where
  "key_b = ''00000000000000000000000000000000000000b2''"

definition key_c :: string where
  "key_c = ''00000000000000000000000000000000000000c3''"

definition fails_on_b :: "string \<Rightarrow> (string, nat option) outcome" where
  "fails_on_b device = (if device = key_b then Raises ''boom'' else Returns (Some 1))"

text \<open>Workers that report no elapsed time; three futures that complete after 3, 1
  and 2 seconds; and three of which the second needs 400 seconds.\<close>

definition no_time :: "nat \<Rightarrow> real" where
  "no_time i = 0"

definition quick_finish :: "nat \<Rightarrow> real" where
  "quick_finish i = (if i = 0 then 3 else if i = 1 then 1 else 2)"

definition slow_finish :: "nat \<Rightarrow> real" where
  "slow_finish i = (if i = 0 then 3 else if i = 1 then 400 else 2)"

text \<open>The default \<open>RetryConfig()\<close>, retrying every exception, and a world in which
  nothing has happened yet.\<close>

definition default_config :: "'e RetryConfig" where
  "default_config =
     \<lparr>max_retries = 3, base_delay = 1, max_delay = 60, backoff_factor = 2,
      strategy = EXPONENTIAL, jitter = True, exceptions = (\<lambda>e. True)\<rparr>"

text \<open>\<open>RetryConfig(max_retries=2000, base_delay=0.0)\<close>: up to 2000 retries with no
  delay between them.\<close>

definition eager_config :: "'e RetryConfig" where
  "eager_config = default_config\<lparr>max_retries := 2000, base_delay := 0\<rparr>"

definition fresh_world :: retry_world where
  "fresh_world = \<lparr>retry_stats = Map.empty, calls = 0, sleeps = []\<rparr>"

section \<open>Properties of RetryManager\<close>

lemma failed_attempts_0: "failed_attempts config func_name rnd a 0 w = w"
  by (simp add: failed_attempts_def)

lemma failed_attempts_Suc:
  "failed_attempts config func_name rnd (Suc a) m
     (w\<lparr>calls := Suc (calls w),
        sleeps := sleeps w @ [delay_of config rnd a],
        retry_stats := record_retry func_name (record_failure func_name (retry_stats w))\<rparr>)
   = failed_attempts config func_name rnd a (Suc m) w"
  by (simp add: failed_attempts_def upt_conv_Cons funpow_swap1 del: upt_Suc)

lemma can_sleepD:
  assumes "can_sleep config rnd i"
  shows "calculate_delay config (rnd i) i = Inr (delay_of config rnd i)"
    and "\<not> sleep_too_long (delay_of config rnd i)" and "0 \<le> delay_of config rnd i"
  using assms by (auto simp: can_sleep_def delay_of_def split: sum.splits)

lemma execute_loop_retry_step:
  assumes "func (calls w) = Raises e" "exceptions config e" "int a < max_retries config"
    and "can_sleep config rnd a"
  shows "execute_loop config func_name func rnd (a # rest) lst w
       = execute_loop config func_name func rnd rest (Some e)
           (w\<lparr>calls := Suc (calls w),
              sleeps := sleeps w @ [delay_of config rnd a],
              retry_stats := record_retry func_name (record_failure func_name (retry_stats w))\<rparr>)"
  using assms(1-3) can_sleepD[OF assms(4)] by (simp add: Let_def)

lemma execute_loop_failed_prefix:
  assumes "\<forall>j<m. \<exists>e. func (calls w + j) = Raises e \<and> exceptions config e"
    and "\<forall>i<m. can_sleep config rnd (a + i)"
    and "int (a + m) \<le> max_retries config"
  shows "\<exists>last'. execute_loop config func_name func rnd ([a..<a + m] @ rest) lst w
       = execute_loop config func_name func rnd rest last'
           (failed_attempts config func_name rnd a m w)"
  using assms
proof (induction m arbitrary: a w lst)
  case 0
  then show ?case by (auto simp: failed_attempts_0)
next
  case (Suc m)
  from Suc.prems(1) obtain e where e: "func (calls w) = Raises e" "exceptions config e"
    by (metis add.right_neutral zero_less_Suc)
  from Suc.prems(2) have d: "can_sleep config rnd a"
    by (metis add.right_neutral zero_less_Suc)
  let ?w = "w\<lparr>calls := Suc (calls w),
        sleeps := sleeps w @ [delay_of config rnd a],
        retry_stats := record_retry func_name (record_failure func_name (retry_stats w))\<rparr>"
  have 1: "\<forall>j<m. \<exists>e. func (calls ?w + j) = Raises e \<and> exceptions config e"
  proof (intro allI impI)
    fix j assume "j < m"
    then have "Suc j < Suc m" by simp
    with Suc.prems(1) have "\<exists>e. func (calls w + Suc j) = Raises e \<and> exceptions config e" by blast
    then show "\<exists>e. func (calls ?w + j) = Raises e \<and> exceptions config e" by simp
  qed
  have 2: "\<forall>i<m. can_sleep config rnd (Suc a + i)"
  proof (intro allI impI)
    fix i assume "i < m"
    then have "Suc i < Suc m" by simp
    with Suc.prems(2) have "can_sleep config rnd (a + Suc i)" by blast
    then show "can_sleep config rnd (Suc a + i)" by simp
  qed
  have 3: "int (Suc a + m) \<le> max_retries config" using Suc.prems(3) by simp
  from Suc.IH[OF 1 2 3] obtain last' where
    IH: "execute_loop config func_name func rnd ([Suc a..<Suc a + m] @ rest) (Some e) ?w
       = execute_loop config func_name func rnd rest last'
           (failed_attempts config func_name rnd (Suc a) m ?w)" by blast
  have lt: "int a < max_retries config" using Suc.prems(3) by simp
  have "[a..<a + Suc m] @ rest = a # ([Suc a..<Suc a + m] @ rest)"
    by (simp add: upt_conv_Cons del: upt_Suc)
  then have "execute_loop config func_name func rnd ([a..<a + Suc m] @ rest) lst w
      = execute_loop config func_name func rnd ([Suc a..<Suc a + m] @ rest) (Some e) ?w"
    using execute_loop_retry_step[of func w e config a rnd, OF e lt d] by simp
  also note IH
  also have "failed_attempts config func_name rnd (Suc a) m ?w
      = failed_attempts config func_name rnd a (Suc m) w"
    by (rule failed_attempts_Suc)
  finally show ?case by (rule exI)
qed

lemma execute_failed_prefix:
  assumes n: "max_retries config = int n" and k: "k \<le> n"
    and fails: "\<forall>j<k. \<exists>e. func (calls w + j) = Raises e \<and> exceptions config e"
    and delays: "\<forall>i<k. can_sleep config rnd i"
  shows "\<exists>last'. execute config func_name func rnd w
       = execute_loop config func_name func rnd (k # [Suc k..<Suc n]) last'
           (failed_attempts config func_name rnd 0 k w)"
proof -
  have "[0..<nat (max_retries config + 1)] = [0..<0 + k] @ (k # [Suc k..<Suc n])"
  proof -
    from k obtain d where d: "Suc n = k + Suc d" by (metis add_Suc_right le_Suc_ex)
    have "[0..<Suc n] = [0..<k] @ [k..<Suc n]"
      unfolding d by (rule upt_add_eq_append) simp
    moreover have "[k..<Suc n] = k # [Suc k..<Suc n]"
      using k by (simp add: upt_conv_Cons del: upt_Suc)
    ultimately show ?thesis using n by (simp add: nat_add_distrib del: upt_Suc)
  qed
  moreover have "\<exists>last'. execute_loop config func_name func rnd ([0..<0 + k] @ (k # [Suc k..<Suc n])) None w
       = execute_loop config func_name func rnd (k # [Suc k..<Suc n]) last'
           (failed_attempts config func_name rnd 0 k w)"
    using fails delays n k by (intro execute_loop_failed_prefix) auto
  ultimately show ?thesis by (simp add: execute_def)
qed

lemma calls_failed_attempts: "calls (failed_attempts config func_name rnd a m w) = calls w + m"
  by (simp add: failed_attempts_def)

lemma sleeps_failed_attempts:
  "sleeps (failed_attempts config func_name rnd a m w)
     = sleeps w @ map (delay_of config rnd) [a..<a + m]"
  by (simp add: failed_attempts_def)

text \<open>When every delay can be computed and slept, a permanently failing operation is
  invoked \<open>n + 1\<close> times and its last exception is raised.\<close>

lemma execute_all_attempts_fail:
  assumes n: "max_retries config = int n"
    and fails: "\<forall>j\<le>n. \<exists>e. func (calls w + j) = Raises e \<and> exceptions config e"
    and delays: "\<forall>i<n. can_sleep config rnd i"
  shows "calls (fst (execute config func_name func rnd w)) = calls w + (n + 1)
       \<and> (\<exists>e. func (calls w + n) = Raises e
              \<and> snd (execute config func_name func rnd w) = Inl (Raised e))
       \<and> length (sleeps (fst (execute config func_name func rnd w))) = length (sleeps w) + n"
proof -
  from fails have pre: "\<forall>j<n. \<exists>e. func (calls w + j) = Raises e \<and> exceptions config e"
    by auto
  from execute_failed_prefix[OF n le_refl pre delays] obtain last' where
    ex: "execute config func_name func rnd w
       = execute_loop config func_name func rnd (n # [Suc n..<Suc n]) last'
           (failed_attempts config func_name rnd 0 n w)" by blast
  from fails obtain e where e: "func (calls w + n) = Raises e" "exceptions config e" by blast
  have "execute config func_name func rnd w
      = ((failed_attempts config func_name rnd 0 n w)
            \<lparr>calls := Suc (calls w + n),
              retry_stats := record_failure func_name
                 (retry_stats (failed_attempts config func_name rnd 0 n w))\<rparr>, Inl (Raised e))"
    using e n by (simp add: ex calls_failed_attempts Let_def)
  then show ?thesis using e by (simp add: sleeps_failed_attempts)
qed

text \<open>An attempt whose delay cannot be computed ends \<open>execute\<close> with that error.\<close>

lemma execute_delay_error:
  assumes n: "max_retries config = int n" and k: "k < n"
    and fails: "\<forall>j\<le>k. \<exists>e. func (calls w + j) = Raises e \<and> exceptions config e"
    and delays: "\<forall>i<k. can_sleep config rnd i"
    and err: "calculate_delay config (rnd k) k = Inl err"
  shows "snd (execute config func_name func rnd w) = Inl err
       \<and> calls (fst (execute config func_name func rnd w)) = calls w + k + 1"
proof -
  from fails have pre: "\<forall>j<k. \<exists>e. func (calls w + j) = Raises e \<and> exceptions config e"
    by auto
  from k have k': "k \<le> n" by simp
  from execute_failed_prefix[OF n k' pre delays] obtain last' where
    ex: "execute config func_name func rnd w
       = execute_loop config func_name func rnd (k # [Suc k..<Suc n]) last'
           (failed_attempts config func_name rnd 0 k w)" by blast
  from fails obtain e where e: "func (calls w + k) = Raises e" "exceptions config e" by blast
  show ?thesis
    using e n k err by (simp add: ex calls_failed_attempts Let_def del: upt_Suc)
qed

lemma float_limit_gt: "2 ^ 1023 < float_limit"
  by (simp add: float_limit_def)

lemma float_pow_2_small:
  assumes "i < 1024"
  shows "float_pow 2 i = Some (2 ^ i)"
proof -
  have "(2::real) ^ i \<le> 2 ^ 1023" using assms by (intro power_increasing) simp_all
  then have a: "\<not> float_limit \<le> \<bar>(2::real) ^ i\<bar>" using float_limit_gt by simp
  have "real i < 2 ^ 1023" using assms by (simp add: less_le_trans[of "real i" 1024])
  then have b: "\<not> float_limit \<le> real i" using float_limit_gt by simp
  show ?thesis using a b by (simp add: float_pow_def float_of_nat_def)
qed

lemma float_pow_2_1024: "float_pow 2 1024 = None"
  by (simp add: float_pow_def float_of_nat_def float_limit_def)


text \<open>Where nothing overflows, the delay is the clamped value of the strategy, plus the
  jitter when it is enabled.\<close>

lemma calculate_delay_representable:
  "(\<not> jitter config \<longrightarrow>
      (strategy config = EXPONENTIAL \<and> float_pow (backoff_factor config) i \<noteq> None \<longrightarrow>
         calculate_delay config r i
           = Inr (min (base_delay config * backoff_factor config ^ i) (max_delay config)))
    \<and> (strategy config = FIXED \<longrightarrow>
         calculate_delay config r i = Inr (min (base_delay config) (max_delay config)))
    \<and> (strategy config = LINEAR \<and> float_of_nat (i + 1) \<noteq> None \<longrightarrow>
         calculate_delay config r i
           = Inr (min (base_delay config * (real i + 1)) (max_delay config))))
 \<and> (jitter config \<and> 0 \<le> r \<and> r < 1 \<and> strategy_delay config i = Inr d \<longrightarrow>
      (\<exists>u. 1/10 \<le> u \<and> u < 3/10 \<and>
         calculate_delay config r i
           = Inr (min d (max_delay config) + u * min d (max_delay config))))"
proof -
  have "\<exists>u. 1/10 \<le> u \<and> u < 3/10 \<and> uniform (1/10) (3/10) r = u" if "0 \<le> r" "r < 1"
    using that by (simp add: uniform_def)
  then show ?thesis
    by (auto simp: calculate_delay_def strategy_delay_def float_pow_def float_of_nat_def Let_def
        add.commute split: option.splits if_splits)
qed

lemma calculate_delay_pow_overflow:
  "strategy config = EXPONENTIAL \<Longrightarrow> float_pow (backoff_factor config) i = None \<Longrightarrow>
     calculate_delay config r i = Inl OverflowError"
  by (simp add: calculate_delay_def strategy_delay_def)

text \<open>With a negative \<open>max_retries\<close> the range is empty: the operation is never invoked
  and \<open>raise last_exception\<close> raises \<open>TypeError\<close>.\<close>

lemma execute_negative_retries:
  "max_retries config < 0 \<Longrightarrow> execute config func_name func rnd w = (w, Inl TypeError)"
  by (simp add: execute_def)

text \<open>
  C7.  The claim gives the delay after the failed attempt \<open>i\<close> of the exponential
  strategy as \<open>min (base_delay * backoff_factor ^ i) max_delay\<close> for every \<open>i\<close>.  The code
  computes the power before it clamps, and the power raises \<open>OverflowError\<close> once it is
  beyond the floats: with the default configuration and jitter disabled, the delay
  after attempt 1024 is not 60 seconds but an exception.  (Where nothing overflows
  the formulas of the claim hold: \<open>calculate_delay_representable\<close>.)
\<close>

theorem calculate_delay_overflow:
  "calculate_delay (default_config\<lparr>jitter := False\<rparr> :: unit RetryConfig) 0 1024 = Inl OverflowError"
  by (simp add: calculate_delay_pow_overflow default_config_def float_pow_2_1024)

lemma eager_config_can_sleep:
  assumes "i < 1024"
  shows "can_sleep eager_config rnd i"
  using float_pow_2_small[OF assms]
  by (simp add: can_sleep_def calculate_delay_def strategy_delay_def eager_config_def
      default_config_def sleep_too_long_def)

lemma eager_config_overflow:
  "calculate_delay eager_config r 1024 = Inl OverflowError"
  by (simp add: calculate_delay_pow_overflow eager_config_def default_config_def float_pow_2_1024)

text \<open>
  C3.  The claim promises \<open>n + 1\<close> invocations and then the exception of the last one.
  With \<open>max_retries = 2000\<close> and no delay, an operation that always raises is invoked
  1025 times; then the delay after attempt 1024 cannot be computed and \<open>execute\<close>
  raises \<open>OverflowError\<close> from inside its \<open>except\<close> handler.  (Where every delay can be
  computed and slept the claim holds: \<open>execute_all_attempts_fail\<close>.)
\<close>

theorem execute_overflow_stops_early:
  "snd (execute eager_config ''op'' (\<lambda>k. Raises () :: (unit, nat) outcome) (\<lambda>i. 1/2) fresh_world)
     = Inl OverflowError
   \<and> calls (fst (execute eager_config ''op'' (\<lambda>k. Raises () :: (unit, nat) outcome) (\<lambda>i. 1/2)
        fresh_world)) = 1025"
proof -
  have n: "max_retries (eager_config :: unit RetryConfig) = int 2000"
    by (simp add: eager_config_def default_config_def)
  have k: "(1024::nat) < 2000" by simp
  have fails: "\<forall>j\<le>1024. \<exists>e. (\<lambda>k. Raises () :: (unit, nat) outcome) (calls fresh_world + j) = Raises e
      \<and> exceptions (eager_config :: unit RetryConfig) e"
    by (simp add: eager_config_def default_config_def)
  have delays: "\<forall>i<1024. can_sleep (eager_config :: unit RetryConfig) (\<lambda>i. 1/2) i"
    by (simp add: eager_config_can_sleep)
  show ?thesis
    using execute_delay_error[OF n k fails delays eager_config_overflow, of "''op''"]
    by (simp add: fresh_world_def)
qed

text \<open>
  C8.  When the operation raises an exception that does not match the configured
  types, that exception is what \<open>execute\<close> raises, at once: in any attempt of the loop
  the world only gains that one invocation.  So when this happens in attempt \<open>k\<close>,
  after \<open>k\<close> failures that were each retried, the world is the one left by those with
  one more invocation: no further invocation, no sleep, and no change of the failure
  and retry counters for that exception.
\<close>

theorem execute_non_matching:
  "(func (calls w) = Raises e \<and> \<not> exceptions config e \<longrightarrow>
      execute_loop config func_name func rnd (attempt # rest) lst w
        = (w\<lparr>calls := Suc (calls w)\<rparr>, Inl (Raised e)))
 \<and> (max_retries config = int n \<and> k \<le> n
      \<and> (\<forall>j<k. \<exists>e'. func (calls w + j) = Raises e' \<and> exceptions config e')
      \<and> (\<forall>i<k. can_sleep config rnd i)
      \<and> func (calls w + k) = Raises e \<and> \<not> exceptions config e \<longrightarrow>
      execute config func_name func rnd w
        = ((failed_attempts config func_name rnd 0 k w)\<lparr>calls := calls w + k + 1\<rparr>,
           Inl (Raised e)))"
proof (intro conjI impI)
  assume "func (calls w) = Raises e \<and> \<not> exceptions config e"
  then show "execute_loop config func_name func rnd (attempt # rest) lst w
        = (w\<lparr>calls := Suc (calls w)\<rparr>, Inl (Raised e))"
    by (simp add: Let_def)
next
  assume a: "max_retries config = int n \<and> k \<le> n
      \<and> (\<forall>j<k. \<exists>e'. func (calls w + j) = Raises e' \<and> exceptions config e')
      \<and> (\<forall>i<k. can_sleep config rnd i)
      \<and> func (calls w + k) = Raises e \<and> \<not> exceptions config e"
  then have n: "max_retries config = int n" and k: "k \<le> n"
    and fails: "\<forall>j<k. \<exists>e'. func (calls w + j) = Raises e' \<and> exceptions config e'"
    and delays: "\<forall>i<k. can_sleep config rnd i"
    and e: "func (calls w + k) = Raises e" "\<not> exceptions config e"
    by blast+
  from execute_failed_prefix[OF n k fails delays] obtain last' where
    ex: "execute config func_name func rnd w
       = execute_loop config func_name func rnd (k # [Suc k..<Suc n]) last'
           (failed_attempts config func_name rnd 0 k w)" by blast
  show "execute config func_name func rnd w
        = ((failed_attempts config func_name rnd 0 k w)\<lparr>calls := calls w + k + 1\<rparr>,
           Inl (Raised e))"
    using e by (simp add: ex calls_failed_attempts Let_def del: upt_Suc)
qed

theorem execute_non_matching_witness:
  "snd (execute (default_config\<lparr>exceptions := (\<lambda>e. e)\<rparr>) ''op''
          (\<lambda>k. Raises (k = 0) :: (bool, nat) outcome) (\<lambda>i. 1/2) fresh_world) = Inl (Raised False)
   \<and> calls (fst (execute (default_config\<lparr>exceptions := (\<lambda>e. e)\<rparr>) ''op''
          (\<lambda>k. Raises (k = 0) :: (bool, nat) outcome) (\<lambda>i. 1/2) fresh_world)) = 2
   \<and> sleeps (fst (execute (default_config\<lparr>exceptions := (\<lambda>e. e)\<rparr>) ''op''
          (\<lambda>k. Raises (k = 0) :: (bool, nat) outcome) (\<lambda>i. 1/2) fresh_world)) = [12/10]
   \<and> retry_stats (fst (execute (default_config\<lparr>exceptions := (\<lambda>e. e)\<rparr>) ''op''
          (\<lambda>k. Raises (k = 0) :: (bool, nat) outcome) (\<lambda>i. 1/2) fresh_world)) ''op''
       = Some \<lparr>stat_success = 0, stat_failure = 1, stat_retries = 1\<rparr>
   \<and> execute_loop (default_config\<lparr>exceptions := (\<lambda>e. e)\<rparr>) ''op''
          (\<lambda>k. Raises False :: (bool, nat) outcome) (\<lambda>i. 1/2) [0, 1, 2, 3] None fresh_world
       = (fresh_world\<lparr>calls := 1\<rparr>, Inl (Raised False))"
proof -
  let ?config = "default_config\<lparr>exceptions := (\<lambda>e. e)\<rparr> :: bool RetryConfig"
  let ?func = "\<lambda>k. Raises (k = 0) :: (bool, nat) outcome"
  have c: "can_sleep ?config (\<lambda>i. 1/2) 0"
    by (simp add: can_sleep_def calculate_delay_def strategy_delay_def default_config_def
        float_pow_def float_of_nat_def float_limit_def sleep_too_long_def uniform_def)
  have hyp: "max_retries ?config = int 3 \<and> (1::nat) \<le> 3
      \<and> (\<forall>j<1. \<exists>e'. ?func (calls fresh_world + j) = Raises e' \<and> exceptions ?config e')
      \<and> (\<forall>i<1. can_sleep ?config (\<lambda>i. 1/2) i)
      \<and> ?func (calls fresh_world + 1) = Raises False \<and> \<not> exceptions ?config False"
    using c by (auto simp: default_config_def fresh_world_def)
  have 1: "execute ?config ''op'' ?func (\<lambda>i. 1/2) fresh_world
        = ((failed_attempts ?config ''op'' (\<lambda>i. 1/2) 0 1 fresh_world)\<lparr>calls := calls fresh_world + 1 + 1\<rparr>,
           Inl (Raised False))"
    by (rule execute_non_matching[THEN conjunct2, rule_format]) (rule hyp)
  have d: "delay_of ?config (\<lambda>i. 1/2) 0 = 12/10"
    by (simp add: delay_of_def calculate_delay_def strategy_delay_def default_config_def
      float_pow_def float_of_nat_def float_limit_def uniform_def)
  have 2: "execute_loop ?config ''op'' (\<lambda>k. Raises False :: (bool, nat) outcome) (\<lambda>i. 1/2)
             [0, 1, 2, 3] None fresh_world
       = (fresh_world\<lparr>calls := Suc (calls fresh_world)\<rparr>, Inl (Raised False))"
    by (rule execute_non_matching[THEN conjunct1, rule_format]) simp
  show ?thesis
    unfolding 1 using 2
    by (simp add: d fresh_world_def failed_attempts_def record_retry_def
        record_failure_def stat_entry_def new_stat_def)
qed

section \<open>Properties of ConnectionPool\<close>

lemma length_update_le: "length (AList.update k v al) \<le> Suc (length al)"
  by (induction al) auto

lemma length_update_below:
  "int (length al) < m \<Longrightarrow> int (length (AList.update k v al)) \<le> m"
  using length_update_le[of k v al] by linarith

lemma length_update_present: "k \<in> fst ` set al \<Longrightarrow> length (AList.update k v al) = length al"
  by (induction al) auto

lemma find_Some_in_set: "List.find P al = Some x \<Longrightarrow> x \<in> set al \<and> P x"
  by (induction al) (auto split: if_splits)

lemma find_None_empty: "List.find P al = None \<Longrightarrow> list_all P al \<Longrightarrow> al = []"
  by (cases al) (auto split: if_splits)

lemma list_all_update:
  "list_all P al \<Longrightarrow> P (k, v) \<Longrightarrow> list_all P (AList.update k v al)"
  by (induction al) auto

lemma list_all_delete: "list_all P al \<Longrightarrow> list_all P (AList.delete k al)"
  by (induction al) auto

lemma map_of_list_all: "list_all P al \<Longrightarrow> map_of al k = Some v \<Longrightarrow> P (k, v)"
  by (induction al) (auto split: if_splits)

lemma max_connections_acquire [simp]:
  "max_connections (fst (acquire_connection p now)) = max_connections p"
  by (auto simp: acquire_connection_def Let_def split: option.splits)

lemma max_connections_release [simp]:
  "max_connections (release_connection p c t) = max_connections p"
  by (auto simp: release_connection_def split: option.splits)

lemma max_connections_remove [simp]:
  "max_connections (remove_connection p c) = max_connections p"
  by (auto simp: remove_connection_def)

lemma max_connections_fold_remove [simp]:
  "max_connections (fold (\<lambda>conn_id s. remove_connection s conn_id) cs p) = max_connections p"
  by (induction cs arbitrary: p) auto

lemma max_connections_cleanup [simp]:
  "max_connections (cleanup_expired_connections p t) = max_connections p"
  by (simp add: cleanup_expired_connections_def)

lemma length_remove_le: "length (connections (remove_connection p c)) \<le> length (connections p)"
  by (simp add: remove_connection_def length_delete_le)

lemma length_fold_remove_le:
  "length (connections (fold (\<lambda>conn_id s. remove_connection s conn_id) cs p)) \<le> length (connections p)"
proof (induction cs arbitrary: p)
  case Nil
  show ?case by simp
next
  case (Cons c cs)
  have "length (connections (fold (\<lambda>conn_id s. remove_connection s conn_id) cs (remove_connection p c)))
      \<le> length (connections (remove_connection p c))" by (rule Cons.IH)
  also have "\<dots> \<le> length (connections p)" by (rule length_remove_le)
  finally show ?case by simp
qed

lemma length_cleanup_le:
  "length (connections (cleanup_expired_connections p t)) \<le> length (connections p)"
  by (simp add: cleanup_expired_connections_def length_fold_remove_le)

lemma length_release: "length (connections (release_connection p c t)) = length (connections p)"
  by (auto simp: release_connection_def length_update_present domI dom_map_of_conv_image_fst[symmetric]
      split: option.splits)

lemma within_capacity_acquire:
  "within_capacity p \<Longrightarrow> within_capacity (fst (acquire_connection p now))"
proof (cases "List.find (\<lambda>(conn_id, conn_info). is_active conn_info) (connections p)")
  case None
  assume "within_capacity p"
  then show ?thesis
    using None
    by (auto simp: acquire_connection_def within_capacity_def Let_def length_update_below)
next
  case (Some x)
  assume wc: "within_capacity p"
  obtain c i where x: "x = (c, i)" by (cases x)
  from Some x have "c \<in> fst ` set (connections p)"
    by (force dest: find_Some_in_set)
  then show ?thesis
    using wc Some x by (simp add: acquire_connection_def within_capacity_def length_update_present)
qed

lemma within_capacity_release:
  "within_capacity p \<Longrightarrow> within_capacity (release_connection p c t)"
  by (simp add: within_capacity_def length_release)

lemma within_capacity_remove:
  "within_capacity p \<Longrightarrow> within_capacity (remove_connection p c)"
  using length_remove_le[of p c] by (simp add: within_capacity_def)

lemma within_capacity_cleanup:
  "within_capacity p \<Longrightarrow> within_capacity (cleanup_expired_connections p t)"
  using length_cleanup_le[of p t] by (simp add: within_capacity_def)

lemma within_capacity_reachable:
  "pool_reachable p \<Longrightarrow> 0 \<le> max_connections p \<Longrightarrow> within_capacity p"
proof (induction rule: pool_reachable.induct)
  case (init max_conns conn_timeout idle cleanup_iv ident)
  then show ?case by (simp add: within_capacity_def ConnectionPool_init_def)
next
  case (acquire p now)
  then show ?case by (simp add: within_capacity_acquire)
next
  case (release p conn_id t)
  then show ?case by (simp add: within_capacity_release)
next
  case (remove p conn_id)
  then show ?case by (simp add: within_capacity_remove)
next
  case (cleanup p t)
  then show ?case by (simp add: within_capacity_cleanup)
next
  case (closed p)
  then show ?case by (simp add: within_capacity_def close_def)
qed

lemma acquire_exhausted:
  assumes "list_all (\<lambda>(conn_id, conn_info). \<not> is_active conn_info) (connections p)"
    and "max_connections p \<le> int (length (connections p))"
  shows "acquire_connection p now = (p, Inl RuntimeError_pool_full)"
proof -
  have "List.find (\<lambda>(conn_id, conn_info). is_active conn_info) (connections p) = None"
    using assms(1) by (auto simp: find_None_iff list_all_iff)
  then show ?thesis using assms(2) by (simp add: acquire_connection_def)
qed


text \<open>
  C4.  The pool never holds more than \<open>max_connections\<close> records: the bound is kept by
  \<open>_acquire_connection\<close>, \<open>_release_connection\<close>, \<open>_remove_connection\<close> and the cleanup,
  and it holds in every state reached from a newly constructed pool (whose bound is
  not negative).  When no record is reusable and the pool is at capacity,
  \<open>_acquire_connection\<close> raises the pool-full error and leaves the pool as it is.
\<close>

theorem pool_capacity:
  "(within_capacity p \<longrightarrow>
      within_capacity (fst (acquire_connection p now))
    \<and> within_capacity (release_connection p c t)
    \<and> within_capacity (remove_connection p c)
    \<and> within_capacity (cleanup_expired_connections p t))
 \<and> (pool_reachable p \<and> 0 \<le> max_connections p \<longrightarrow> within_capacity p)
 \<and> (list_all (\<lambda>(conn_id, conn_info). \<not> is_active conn_info) (connections p)
      \<and> max_connections p \<le> int (length (connections p)) \<longrightarrow>
        acquire_connection p now = (p, Inl RuntimeError_pool_full))"
  using within_capacity_acquire within_capacity_release within_capacity_remove
    within_capacity_cleanup within_capacity_reachable acquire_exhausted
  by blast


theorem pool_capacity_witness:
  "within_capacity (fst (acquire_connection (pool_of 2) (at_time 5)))
   \<and> within_capacity (release_connection (pool_of 2) ''conn_5000_7'' 6)
   \<and> within_capacity (remove_connection (pool_of 2) ''conn_5000_7'')
   \<and> within_capacity (cleanup_expired_connections (pool_of 2) 6)
   \<and> acquire_connection (pool_of 0) (at_time 5) = (pool_of 0, Inl RuntimeError_pool_full)"
proof -
  have r: "pool_reachable (pool_of 2)"
    unfolding pool_of_def by (rule pool_reachable.init)
  have m: "0 \<le> max_connections (pool_of 2)"
    by (simp add: pool_of_def ConnectionPool_init_def)
  have e: "list_all (\<lambda>(conn_id, conn_info). \<not> is_active conn_info) (connections (pool_of 0))"
     "max_connections (pool_of 0) \<le> int (length (connections (pool_of 0)))"
    by (simp_all add: pool_of_def ConnectionPool_init_def)
  show ?thesis
    using pool_capacity[of "pool_of 2" "at_time 5" "''conn_5000_7''" 6] r m
      pool_capacity[of "pool_of 0" "at_time 5" "''conn_5000_7''" 6] e
    by blast
qed

lemma all_active_remove: "all_active p \<Longrightarrow> all_active (remove_connection p c)"
  by (simp add: all_active_def remove_connection_def list_all_delete)

lemma all_active_fold_remove:
  "all_active p \<Longrightarrow> all_active (fold (\<lambda>conn_id s. remove_connection s conn_id) cs p)"
  by (induction cs arbitrary: p) (auto simp: all_active_remove)

lemma all_active_cleanup: "all_active p \<Longrightarrow> all_active (cleanup_expired_connections p t)"
  by (simp add: cleanup_expired_connections_def all_active_fold_remove)

lemma all_active_release: "all_active p \<Longrightarrow> all_active (release_connection p c t)"
  by (auto simp: all_active_def release_connection_def intro!: list_all_update
      dest: map_of_list_all split: option.splits)

lemma acquire_reuse:
  assumes "all_active p" and "connections p = (c, i) # rest"
  shows "acquire_connection p now
       = (p\<lparr>connections := (c, i\<lparr>last_used := now 0\<rparr>) # rest\<rparr>, Inr c)"
  using assms by (simp add: acquire_connection_def all_active_def)

lemma acquire_create:
  assumes "connections p = []" and "1 \<le> max_connections p"
  shows "acquire_connection p now
       = (p\<lparr>connections := [(new_conn_id p (now 0),
              \<lparr>id_conn = new_conn_id p (now 0), created_at = now 1, last_used = now 2,
               is_active = True, metadata = []\<rparr>)]\<rparr>, Inr (new_conn_id p (now 0)))"
  using assms by (simp add: acquire_connection_def Let_def)

lemma all_active_acquire: "all_active p \<Longrightarrow> all_active (fst (acquire_connection p now))"
  by (cases "connections p")
     (auto simp: acquire_connection_def all_active_def Let_def)

lemma length_acquire_active:
  "all_active p \<Longrightarrow> length (connections (fst (acquire_connection p now))) \<le> max 1 (length (connections p))"
  by (cases "connections p")
     (auto simp: acquire_connection_def all_active_def Let_def)

lemma single_active_reachable: "pool_reachable p \<Longrightarrow> single_active p"
proof (induction rule: pool_reachable.induct)
  case (init max_conns conn_timeout idle cleanup_iv ident)
  show ?case by (simp add: single_active_def all_active_def ConnectionPool_init_def)
next
  case (acquire p now)
  then show ?case
    using length_acquire_active[of p now] by (auto simp: single_active_def all_active_acquire)
next
  case (release p conn_id t)
  then show ?case by (simp add: single_active_def all_active_release length_release)
next
  case (remove p conn_id)
  then show ?case
    using length_remove_le[of p conn_id] by (simp add: single_active_def all_active_remove)
next
  case (cleanup p t)
  then show ?case
    using length_cleanup_le[of p t] by (simp add: single_active_def all_active_cleanup)
next
  case (closed p)
  show ?case by (simp add: single_active_def all_active_def close_def)
qed

lemma acquire_not_exhausted:
  assumes "all_active p" "1 \<le> max_connections p"
  shows "snd (acquire_connection p now) \<noteq> Inl RuntimeError_pool_full"
proof (cases "connections p")
  case Nil
  then show ?thesis using assms(2) by (simp add: acquire_create)
next
  case (Cons x rest)
  obtain c i where "x = (c, i)" by (cases x)
  with Cons assms(1) show ?thesis by (simp add: acquire_reuse)
qed


lemma str_nat_7: "str_nat 7 = ''7''"
  by code_simp

lemma str_nat_5000: "str_nat 5000 = ''5000''"
  by code_simp

lemma new_conn_id_example: "new_conn_id (pool_of 1) 5 = ''conn_5000_7''"
  by (simp add: new_conn_id_def pool_of_def ConnectionPool_init_def str_int_def int_of_float_def
      str_nat_7 str_nat_5000)

lemma acquire_twice:
  assumes "pool_reachable p" "1 \<le> max_connections p"
  shows "\<exists>c i. acquire_connection p now = (p\<lparr>connections := [(c, i)]\<rparr>, Inr c)
          \<and> (connections p = [] \<longrightarrow>
                c = new_conn_id p (now 0)
              \<and> i = \<lparr>id_conn = c, created_at = now 1, last_used = now 2,
                     is_active = True, metadata = []\<rparr>)
          \<and> acquire_connection (p\<lparr>connections := [(c, i)]\<rparr>) now'
              = (p\<lparr>connections := [(c, i\<lparr>last_used := now' 0\<rparr>)]\<rparr>, Inr c)"
proof -
  from single_active_reachable[OF assms(1)]
  have act: "all_active p" and len: "length (connections p) \<le> 1"
    by (simp_all add: single_active_def)
  show ?thesis
  proof (cases "connections p")
    case Nil
    let ?c = "new_conn_id p (now 0)"
    let ?i = "\<lparr>id_conn = ?c, created_at = now 1, last_used = now 2,
                     is_active = True, metadata = []\<rparr>"
    have 1: "acquire_connection p now = (p\<lparr>connections := [(?c, ?i)]\<rparr>, Inr ?c)"
      using acquire_create[OF Nil assms(2)] by simp
    have "all_active (p\<lparr>connections := [(?c, ?i)]\<rparr>)" by (simp add: all_active_def)
    then have 2: "acquire_connection (p\<lparr>connections := [(?c, ?i)]\<rparr>) now'
              = (p\<lparr>connections := [(?c, ?i\<lparr>last_used := now' 0\<rparr>)]\<rparr>, Inr ?c)"
      using acquire_reuse[of "p\<lparr>connections := [(?c, ?i)]\<rparr>" ?c ?i "[]" now'] by simp
    show ?thesis by (intro exI[of _ ?c] exI[of _ ?i]) (use 1 2 in simp)
  next
    case (Cons x rest)
    with len have rest: "rest = []" by simp
    obtain c0 i0 where x: "x = (c0, i0)" by (cases x)
    let ?i = "i0\<lparr>last_used := now 0\<rparr>"
    have conn: "connections p = [(c0, i0)]" using Cons rest x by simp
    have 1: "acquire_connection p now = (p\<lparr>connections := [(c0, ?i)]\<rparr>, Inr c0)"
      using acquire_reuse[OF act conn] by simp
    have "is_active i0" using act conn by (simp add: all_active_def)
    then have "all_active (p\<lparr>connections := [(c0, ?i)]\<rparr>)" by (simp add: all_active_def)
    then have 2: "acquire_connection (p\<lparr>connections := [(c0, ?i)]\<rparr>) now'
              = (p\<lparr>connections := [(c0, ?i\<lparr>last_used := now' 0\<rparr>)]\<rparr>, Inr c0)"
      using acquire_reuse[of "p\<lparr>connections := [(c0, ?i)]\<rparr>" c0 ?i "[]" now'] by simp
    show ?thesis by (intro exI[of _ c0] exI[of _ ?i]) (use 1 2 conn in simp)
  qed
qed

text \<open>
  C10.  In every state reached from a newly constructed pool, every record is flagged
  active (no operation clears the flag) and there is at most one record; when the
  pool has a record, \<open>_acquire_connection\<close> returns the id of the first one and changes
  nothing but its \<open>last_used\<close>.  With \<open>max_connections \<ge> 1\<close> it never raises the
  pool-full error: it leaves exactly one record in the pool, the new one when the
  pool was empty, and returns its id; and the acquire that follows returns that same
  id and moves only \<open>last_used\<close>.
\<close>

theorem pool_records_always_reused:
  "pool_reachable p \<Longrightarrow>
     all_active p
   \<and> length (connections p) \<le> 1
   \<and> (\<forall>c i rest. connections p = (c, i) # rest \<longrightarrow>
         acquire_connection p now = (p\<lparr>connections := (c, i\<lparr>last_used := now 0\<rparr>) # rest\<rparr>, Inr c))
   \<and> (1 \<le> max_connections p \<longrightarrow>
         snd (acquire_connection p now) \<noteq> Inl RuntimeError_pool_full
       \<and> (\<exists>c i. acquire_connection p now = (p\<lparr>connections := [(c, i)]\<rparr>, Inr c)
            \<and> (connections p = [] \<longrightarrow>
                  c = new_conn_id p (now 0)
                \<and> i = \<lparr>id_conn = c, created_at = now 1, last_used = now 2,
                       is_active = True, metadata = []\<rparr>)
            \<and> acquire_connection (p\<lparr>connections := [(c, i)]\<rparr>) now'
                = (p\<lparr>connections := [(c, i\<lparr>last_used := now' 0\<rparr>)]\<rparr>, Inr c)))"
proof -
  assume r: "pool_reachable p"
  have sa: "all_active p" "length (connections p) \<le> 1"
    using single_active_reachable[OF r] by (simp_all add: single_active_def)
  have reuse: "\<forall>c i rest. connections p = (c, i) # rest \<longrightarrow>
         acquire_connection p now = (p\<lparr>connections := (c, i\<lparr>last_used := now 0\<rparr>) # rest\<rparr>, Inr c)"
    using acquire_reuse[OF sa(1)] by blast
  have ne: "snd (acquire_connection p now) \<noteq> Inl RuntimeError_pool_full"
    if "1 \<le> max_connections p"
    using acquire_not_exhausted[OF sa(1) that] .
  show ?thesis
    using sa reuse ne acquire_twice[OF r, of now now'] by blast
qed

theorem pool_records_always_reused_witness:
  "acquire_connection (pool_of 1) (at_time 5)
     = ((pool_of 1)\<lparr>connections := [(''conn_5000_7'',
           \<lparr>id_conn = ''conn_5000_7'', created_at = 5, last_used = 5,
            is_active = True, metadata = []\<rparr>)]\<rparr>, Inr ''conn_5000_7'')
   \<and> acquire_connection (fst (acquire_connection (pool_of 1) (at_time 5))) (at_time 9)
     = ((pool_of 1)\<lparr>connections := [(''conn_5000_7'',
           \<lparr>id_conn = ''conn_5000_7'', created_at = 5, last_used = 9,
            is_active = True, metadata = []\<rparr>)]\<rparr>, Inr ''conn_5000_7'')
   \<and> all_active (fst (acquire_connection (pool_of 1) (at_time 5)))
   \<and> length (connections (fst (acquire_connection (pool_of 1) (at_time 5)))) \<le> 1
   \<and> snd (acquire_connection (fst (acquire_connection (pool_of 1) (at_time 5))) (at_time 9))
       \<noteq> Inl RuntimeError_pool_full"
proof -
  have r0: "pool_reachable (pool_of 1)"
    unfolding pool_of_def by (rule pool_reachable.init)
  have m0: "1 \<le> max_connections (pool_of 1)" and e0: "connections (pool_of 1) = []"
    by (simp_all add: pool_of_def ConnectionPool_init_def)
  from pool_records_always_reused[OF r0, of "at_time 5" "at_time 9"] m0
  obtain c i where
    1: "acquire_connection (pool_of 1) (at_time 5) = ((pool_of 1)\<lparr>connections := [(c, i)]\<rparr>, Inr c)"
    and ci: "connections (pool_of 1) = [] \<longrightarrow>
                  c = new_conn_id (pool_of 1) (at_time 5 0)
                \<and> i = \<lparr>id_conn = c, created_at = at_time 5 1, last_used = at_time 5 2,
                       is_active = True, metadata = []\<rparr>"
    and 2: "acquire_connection ((pool_of 1)\<lparr>connections := [(c, i)]\<rparr>) (at_time 9)
                = ((pool_of 1)\<lparr>connections := [(c, i\<lparr>last_used := at_time 9 0\<rparr>)]\<rparr>, Inr c)"
    by blast
  from ci e0 have c: "c = ''conn_5000_7''"
    and i: "i = \<lparr>id_conn = ''conn_5000_7'', created_at = 5, last_used = 5,
                       is_active = True, metadata = []\<rparr>"
    by (simp_all add: at_time_def new_conn_id_example)
  have r1: "pool_reachable (fst (acquire_connection (pool_of 1) (at_time 5)))"
    by (intro pool_reachable.acquire r0)
  have m1: "1 \<le> max_connections (fst (acquire_connection (pool_of 1) (at_time 5)))"
    using m0 by simp
  from pool_records_always_reused[OF r1, of "at_time 9" "at_time 9"] m1
  have 3: "all_active (fst (acquire_connection (pool_of 1) (at_time 5)))"
    "length (connections (fst (acquire_connection (pool_of 1) (at_time 5)))) \<le> 1"
    "snd (acquire_connection (fst (acquire_connection (pool_of 1) (at_time 5))) (at_time 9))
       \<noteq> Inl RuntimeError_pool_full"
    by blast+
  show ?thesis
    using 1 2 3 by (simp add: c i at_time_def)
qed

section \<open>Properties of HealthChecker\<close>

lemma counters_present_iff:
  "counters_present self = list_all (\<lambda>(nm, check). has_counters self nm) (checks self)"
  by (simp add: counters_present_def has_counters_def)

lemma check_one_ok:
  assumes "has_counters self nm"
  shows "\<exists>self'. check_one alarm_ok w (nm, check) (self, h)
            = ((self', if execute_check alarm_ok check w then h + 1 else h), None)
          \<and> status_history self' = status_history self
          \<and> checks self' = checks self
          \<and> (\<forall>k. has_counters self k \<longrightarrow> has_counters self' k)"
  using assms by (auto simp: check_one_def has_counters_def Let_def)

lemma run_checks_ok:
  assumes "list_all (\<lambda>(nm, check). has_counters self nm) cs"
  shows "\<exists>self'. run_checks alarm_ok w cs (self, h)
            = ((self', h + int (length (filter (\<lambda>(nm, check). execute_check alarm_ok check w) cs))), None)
          \<and> status_history self' = status_history self
          \<and> checks self' = checks self
          \<and> (\<forall>k. has_counters self k \<longrightarrow> has_counters self' k)"
  using assms
proof (induction cs arbitrary: self h)
  case Nil
  show ?case by simp
next
  case (Cons entry cs)
  obtain nm check where entry: "entry = (nm, check)" by (cases entry)
  from Cons.prems entry have hc: "has_counters self nm" by simp
  from check_one_ok[OF hc, of alarm_ok w check h] obtain self1 where
    one: "check_one alarm_ok w (nm, check) (self, h)
            = ((self1, if execute_check alarm_ok check w then h + 1 else h), None)"
    and keep1: "status_history self1 = status_history self" "checks self1 = checks self"
    and mono1: "\<forall>k. has_counters self k \<longrightarrow> has_counters self1 k"
    by blast
  have rest: "list_all (\<lambda>(nm, check). has_counters self1 nm) cs"
    using Cons.prems mono1 by (auto simp: list_all_iff)
  from Cons.IH[OF rest, of "if execute_check alarm_ok check w then h + 1 else h"]
  obtain self2 where
    two: "run_checks alarm_ok w cs (self1, if execute_check alarm_ok check w then h + 1 else h)
            = ((self2, (if execute_check alarm_ok check w then h + 1 else h)
                  + int (length (filter (\<lambda>(nm, check). execute_check alarm_ok check w) cs))), None)"
    and keep2: "status_history self2 = status_history self1" "checks self2 = checks self1"
    and mono2: "\<forall>k. has_counters self1 k \<longrightarrow> has_counters self2 k"
    by blast
  have "run_checks alarm_ok w (entry # cs) (self, h)
      = ((self2, h + int (length (filter (\<lambda>(nm, check). execute_check alarm_ok check w) (entry # cs)))), None)"
    using one two entry by simp
  then show ?case using keep1 keep2 mono1 mono2 by auto
qed

text \<open>What \<open>check_health\<close> does when checks are registered and have their counters.\<close>

lemma check_health_run:
  assumes "counters_present self" and "checks self \<noteq> []"
  shows "\<exists>self1. check_health alarm_ok w now self
      = (let status = overall_status (int (passed alarm_ok w self)) (int (length (checks self)));
             history = status_history self @ [(now, ''overall'', status)]
         in (self1\<lparr>current_status := status,
                   status_history := (if length history > 1000 then last_500 history else history)\<rparr>,
             Inr status))"
proof -
  from assms(1) have "list_all (\<lambda>(nm, check). has_counters self nm) (checks self)"
    by (simp add: counters_present_iff)
  from run_checks_ok[OF this, of alarm_ok w 0] obtain self1 where
    run: "run_checks alarm_ok w (checks self) (self, 0) = ((self1, int (passed alarm_ok w self)), None)"
    and keep: "status_history self1 = status_history self"
    by (auto simp: passed_def)
  show ?thesis
    using assms(2) run keep by (intro exI[of _ self1]) (simp add: check_health_def Let_def)
qed

lemma overall_status_cases:
  assumes "0 < n"
  shows "overall_status h n =
     (if 9 * n \<le> 10 * h then HEALTHY
      else if n \<le> 2 * h then DEGRADED else UNHEALTHY)"
proof -
  have r: "0 < real_of_int n" using assms by simp
  have a: "(9 / 10 \<le> real_of_int h / real_of_int n) = (9 * n \<le> 10 * h)"
  proof -
    have "(9 / 10 \<le> real_of_int h / real_of_int n) = (9 * real_of_int n \<le> 10 * real_of_int h)"
      using r by (simp add: field_simps)
    also have "\<dots> = (real_of_int (9 * n) \<le> real_of_int (10 * h))" by simp
    also have "\<dots> = (9 * n \<le> 10 * h)" by (rule of_int_le_iff)
    finally show ?thesis .
  qed
  have b: "(1 / 2 \<le> real_of_int h / real_of_int n) = (n \<le> 2 * h)"
  proof -
    have "(1 / 2 \<le> real_of_int h / real_of_int n) = (real_of_int n \<le> 2 * real_of_int h)"
      using r by (simp add: field_simps)
    also have "\<dots> = (real_of_int n \<le> real_of_int (2 * h))" by simp
    also have "\<dots> = (n \<le> 2 * h)" by (rule of_int_le_iff)
    finally show ?thesis .
  qed
  show ?thesis unfolding overall_status_def Let_def a b by (rule refl)
qed


lemma check_one_history:
  "status_history (fst (fst (check_one alarm_ok w entry (self, h)))) = status_history self"
  by (cases entry)
     (auto simp: check_one_def check_handler_def Let_def split: option.splits)

lemma run_checks_history:
  "status_history (fst (fst (run_checks alarm_ok w cs (self, h)))) = status_history self"
proof (induction cs arbitrary: self h)
  case Nil
  show ?case by simp
next
  case (Cons entry cs)
  obtain self1 h1 err where one: "check_one alarm_ok w entry (self, h) = ((self1, h1), err)"
    by (metis surj_pair)
  have "status_history self1 = status_history self"
    using check_one_history[of alarm_ok w entry self h] one by simp
  then show ?case using one Cons.IH[of self1 h1] by (cases err) simp_all
qed

lemma history_bound_check_health:
  assumes "length (status_history self) \<le> 1000"
  shows "length (status_history (fst (check_health alarm_ok w now self))) \<le> 1000"
proof (cases "checks self = []")
  case True
  then show ?thesis using assms by (simp add: check_health_def)
next
  case False
  obtain self1 h1 err where run: "run_checks alarm_ok w (checks self) (self, 0) = ((self1, h1), err)"
    by (metis surj_pair)
  have keep: "status_history self1 = status_history self"
    using run_checks_history[of alarm_ok w "checks self" self 0] run by simp
  show ?thesis
    using False run keep assms
    by (cases err) (auto simp: check_health_def Let_def last_500_def)
qed

lemma counters_present_init: "counters_present HealthChecker_init"
  by (simp add: counters_present_def HealthChecker_init_def)

lemma counters_present_add_check:
  assumes "counters_present self"
  shows "counters_present (add_check self check)"
proof -
  have "set (AList.update k v al) \<subseteq> insert (k, v) (set al)" for k v and al :: "(string \<times> ('a, 'b) HealthCheck) list"
    by (induction al) auto
  then show ?thesis
    using assms by (fastforce simp: counters_present_def add_check_def list_all_iff)
qed

lemma counters_present_check_health:
  assumes "counters_present self"
  shows "counters_present (fst (check_health alarm_ok w now self))"
proof (cases "checks self = []")
  case True
  then show ?thesis by (simp add: check_health_def counters_present_def)
next
  case False
  from assms have "list_all (\<lambda>(nm, check). has_counters self nm) (checks self)"
    by (simp add: counters_present_iff)
  from run_checks_ok[OF this, of alarm_ok w 0] obtain self1 where
    run: "run_checks alarm_ok w (checks self) (self, 0) = ((self1, int (passed alarm_ok w self)), None)"
    and keep: "checks self1 = checks self"
    and mono: "\<forall>k. has_counters self k \<longrightarrow> has_counters self1 k"
    by (auto simp: passed_def)
  have "counters_present self1"
    using assms keep mono by (auto simp: counters_present_iff list_all_iff)
  then show ?thesis
    using False run by (simp add: check_health_def Let_def counters_present_def)
qed

lemma counters_present_remove_check:
  assumes "counters_present self"
  shows "counters_present (fst (remove_check self nm)) \<and> snd (remove_check self nm) = None"
proof (cases "nm \<in> fst ` set (checks self)")
  case False
  then show ?thesis using assms by (simp add: remove_check_def)
next
  case True
  with assms have "failure_counts self nm \<noteq> None" "recovery_counts self nm \<noteq> None"
    by (auto simp: counters_present_def list_all_iff)
  then show ?thesis
    using assms True
    by (auto simp: remove_check_def counters_present_def list_all_iff Let_def AList.delete_eq)
qed


text \<open>
  C5.  \<open>check_health\<close> returns \<open>UNKNOWN\<close> when no checks are registered.  Otherwise, with
  \<open>p\<close> the fraction of the registered probes that pass in this run, it returns
  \<open>HEALTHY\<close> when \<open>p \<ge> 0.9\<close>, \<open>DEGRADED\<close> when \<open>0.5 \<le> p < 0.9\<close> and \<open>UNHEALTHY\<close> when
  \<open>p < 0.5\<close>; so all probes passing gives \<open>HEALTHY\<close> and exactly half of them failing
  gives \<open>DEGRADED\<close>.  The registered checks have their counters, as \<open>add_check\<close> sets
  them up.
\<close>

theorem check_health_classification:
  "(checks self = [] \<longrightarrow> snd (check_health alarm_ok w now self) = Inr UNKNOWN)
 \<and> (counters_present self \<and> checks self \<noteq> [] \<longrightarrow>
      snd (check_health alarm_ok w now self)
        = Inr (if 9/10 \<le> real (passed alarm_ok w self) / real (length (checks self)) then HEALTHY
               else if 1/2 \<le> real (passed alarm_ok w self) / real (length (checks self)) then DEGRADED
               else UNHEALTHY)
    \<and> (passed alarm_ok w self = length (checks self) \<longrightarrow>
          snd (check_health alarm_ok w now self) = Inr HEALTHY)
    \<and> (2 * (length (checks self) - passed alarm_ok w self) = length (checks self) \<longrightarrow>
          snd (check_health alarm_ok w now self) = Inr DEGRADED))"
proof -
  have none: "snd (check_health alarm_ok w now self) = Inr UNKNOWN" if "checks self = []"
    using that by (simp add: check_health_def)
  have run: "snd (check_health alarm_ok w now self)
      = Inr (overall_status (int (passed alarm_ok w self)) (int (length (checks self))))"
    if "counters_present self" "checks self \<noteq> []"
    using check_health_run[OF that, of alarm_ok w now] by (auto simp: Let_def)
  have le: "passed alarm_ok w self \<le> length (checks self)"
    by (simp add: passed_def)
  have pos: "0 < int (length (checks self))" if "checks self \<noteq> []"
    using that by simp
  have all: "overall_status (int (passed alarm_ok w self)) (int (length (checks self))) = HEALTHY"
    if "checks self \<noteq> []" "passed alarm_ok w self = length (checks self)"
    using that by (simp add: overall_status_cases[OF pos])
  have half: "overall_status (int (passed alarm_ok w self)) (int (length (checks self))) = DEGRADED"
    if "checks self \<noteq> []" "2 * (length (checks self) - passed alarm_ok w self) = length (checks self)"
  proof -
    from that(2) le have "2 * passed alarm_ok w self = length (checks self)" by linarith
    moreover from that(1) have "0 < length (checks self)" by simp
    ultimately have "int (length (checks self)) \<le> 2 * int (passed alarm_ok w self)"
      and "\<not> 9 * int (length (checks self)) \<le> 10 * int (passed alarm_ok w self)"
      by linarith+
    then show ?thesis by (simp add: overall_status_cases[OF pos[OF that(1)]])
  qed
  show ?thesis
    using none run all half by (simp add: overall_status_def Let_def)
qed

theorem check_health_classification_witness:
  "snd (check_health True () 5 (HealthChecker_init :: (unit, unit) HealthChecker)
         :: (unit, unit) HealthChecker \<times> (unit error + HealthStatus)) = Inr UNKNOWN
   \<and> snd (check_health True () 5 (add_check HealthChecker_init (probe ''a'' True))) = Inr HEALTHY
   \<and> snd (check_health True () 5 two_checks) = Inr DEGRADED
   \<and> snd (check_health True () 5 (add_check HealthChecker_init (probe ''b'' False))) = Inr UNHEALTHY"
proof -
  have c: "counters_present two_checks"
    "counters_present (add_check HealthChecker_init (probe ''a'' True))"
    "counters_present (add_check HealthChecker_init (probe ''b'' False))"
    unfolding two_checks_def by (intro counters_present_add_check counters_present_init)+
  have v: "checks two_checks = [(''a'', probe ''a'' True), (''b'', probe ''b'' False)]"
    "checks (add_check HealthChecker_init (probe ''a'' True)) = [(''a'', probe ''a'' True)]"
    "checks (add_check HealthChecker_init (probe ''b'' False)) = [(''b'', probe ''b'' False)]"
    "checks (HealthChecker_init :: (unit, unit) HealthChecker) = []"
    by (simp_all add: two_checks_def add_check_def HealthChecker_init_def probe_def)
  have p: "passed True () two_checks = 1"
    "passed True () (add_check HealthChecker_init (probe ''a'' True)) = 1"
    "passed True () (add_check HealthChecker_init (probe ''b'' False)) = 0"
    by (simp_all add: passed_def two_checks_def add_check_def HealthChecker_init_def
        execute_check_def probe_def)
  show ?thesis
    using check_health_classification[of two_checks True "()" 5]
      check_health_classification[of "add_check HealthChecker_init (probe ''a'' True)" True "()" 5]
      check_health_classification[of "add_check HealthChecker_init (probe ''b'' False)" True "()" 5]
      check_health_classification[of "HealthChecker_init :: (unit, unit) HealthChecker" True "()" 5]
      c
    by (simp add: v p)
qed


text \<open>
  C9, as stated, fails: a call of \<open>check_health\<close> on a checker without registered
  checks returns \<open>UNKNOWN\<close> before the history is touched, so nothing is appended.
\<close>

theorem check_health_no_checks_counterexample:
  "status_history (fst (check_health True () 5 (HealthChecker_init :: (unit, unit) HealthChecker)
         :: (unit, unit) HealthChecker \<times> (unit error + HealthStatus))) = []
   \<and> snd (check_health True () 5 (HealthChecker_init :: (unit, unit) HealthChecker)
         :: (unit, unit) HealthChecker \<times> (unit error + HealthStatus)) = Inr UNKNOWN"
  by (simp add: check_health_def HealthChecker_init_def)


text \<open>
  C9, amended.  A call of \<open>check_health\<close> with at least one check registered appends
  the entry \<open>(timestamp, "overall", status)\<close> to the history and then, when the
  history is longer than 1000, keeps its last 500 entries; a call with no checks
  registered sets the status to \<open>UNKNOWN\<close> and leaves the history as it is.  A
  history of at most 1000 entries therefore has at most 1000 entries after any call.
\<close>

theorem check_health_history:
  "(checks self = [] \<longrightarrow>
      check_health alarm_ok w now self = (self\<lparr>current_status := UNKNOWN\<rparr>, Inr UNKNOWN))
 \<and> (counters_present self \<and> checks self \<noteq> [] \<longrightarrow>
      (\<exists>status. snd (check_health alarm_ok w now self) = Inr status
         \<and> status_history (fst (check_health alarm_ok w now self))
             = (if length (status_history self @ [(now, ''overall'', status)]) > 1000
                then last_500 (status_history self @ [(now, ''overall'', status)])
                else status_history self @ [(now, ''overall'', status)])))
 \<and> (length (status_history self) \<le> 1000 \<longrightarrow>
      length (status_history (fst (check_health alarm_ok w now self))) \<le> 1000)"
proof -
  have "\<exists>status. snd (check_health alarm_ok w now self) = Inr status
         \<and> status_history (fst (check_health alarm_ok w now self))
             = (if length (status_history self @ [(now, ''overall'', status)]) > 1000
                then last_500 (status_history self @ [(now, ''overall'', status)])
                else status_history self @ [(now, ''overall'', status)])"
    if "counters_present self" "checks self \<noteq> []"
    using check_health_run[OF that, of alarm_ok w now] by (auto simp: Let_def)
  then show ?thesis
    using history_bound_check_health[of self alarm_ok w now]
    by (simp add: check_health_def)
qed


theorem check_health_history_witness:
  "status_history (fst (check_health True () 5 two_checks)) = [(5, ''overall'', DEGRADED)]
   \<and> status_history (fst (check_health True () 5 (HealthChecker_init :: (unit, unit) HealthChecker)
         :: (unit, unit) HealthChecker \<times> (unit error + HealthStatus))) = []
   \<and> length (status_history (fst (check_health True () 5
         (two_checks\<lparr>status_history := replicate 1000 (0, ''overall'', HEALTHY)\<rparr>)))) = 500"
proof -
  let ?full = "two_checks\<lparr>status_history := replicate 1000 (0, ''overall'', HEALTHY)\<rparr>"
  have c: "counters_present two_checks"
    unfolding two_checks_def by (intro counters_present_add_check counters_present_init)
  then have c': "counters_present ?full" "checks ?full \<noteq> []"
    by (simp_all add: two_checks_def counters_present_def add_check_def)
  have v: "checks two_checks = [(''a'', probe ''a'' True), (''b'', probe ''b'' False)]"
    "status_history two_checks = []"
    "checks (HealthChecker_init :: (unit, unit) HealthChecker) = []"
    by (simp_all add: two_checks_def add_check_def HealthChecker_init_def probe_def)
  have d: "snd (check_health True () 5 two_checks) = Inr DEGRADED"
    by (simp add: check_health_def v two_checks_def add_check_def HealthChecker_init_def probe_def
        check_one_def execute_check_def overall_status_def Let_def)
  have 1: "status_history (fst (check_health True () 5 two_checks)) = [(5, ''overall'', DEGRADED)]"
    using check_health_history[of two_checks True "()" 5] c d by (auto simp: v)
  have 2: "status_history (fst (check_health True () 5 (HealthChecker_init :: (unit, unit) HealthChecker)
         :: (unit, unit) HealthChecker \<times> (unit error + HealthStatus))) = []"
    using check_health_history[of "HealthChecker_init :: (unit, unit) HealthChecker" True "()" 5]
    by (auto simp: v HealthChecker_init_def)
  have 3: "length (status_history (fst (check_health True () 5 ?full))) = 500"
    using check_health_history[of ?full True "()" 5] c' by (auto simp: last_500_def)
  show ?thesis using 1 2 3 by simp
qed

section \<open>Properties of CircuitBreaker\<close>

lemma call_closed_failure:
  assumes "state self = CLOSED" "expected_exception self e"
  shows "call self t_check t_fail (Raises e)
       = (self\<lparr>failure_count := failure_count self + 1, last_failure_time := t_fail,
                state := (if failure_threshold self \<le> failure_count self + 1 then OPEN else CLOSED)\<rparr>,
          1, Inl (Raised e))"
  using assms by (simp add: call_def on_failure_def Let_def)

lemma call_seq_closed_failures:
  assumes "state self = CLOSED"
    and "all_expected_failures (expected_exception self) xs"
    and "xs \<noteq> []"
    and "failure_count self + int (length xs) \<le> failure_threshold self"
  shows "snd (call_seq self xs) = length xs
       \<and> state (fst (call_seq self xs))
           = (if failure_count self + int (length xs) = failure_threshold self then OPEN else CLOSED)
       \<and> failure_count (fst (call_seq self xs)) = failure_count self + int (length xs)
       \<and> last_failure_time (fst (call_seq self xs)) = fst (snd (last xs))"
  using assms
proof (induction xs arbitrary: self)
  case Nil
  then show ?case by simp
next
  case (Cons x xs)
  obtain t_check t_fail func where x: "x = (t_check, t_fail, func)" by (cases x)
  from Cons.prems(2) x obtain e where e: "func = Raises e" "expected_exception self e"
    by (auto simp: all_expected_failures_def split: outcome.splits)
  let ?self1 = "self\<lparr>failure_count := failure_count self + 1, last_failure_time := t_fail,
                state := (if failure_threshold self \<le> failure_count self + 1 then OPEN else CLOSED)\<rparr>"
  have one: "call self t_check t_fail func = (?self1, 1, Inl (Raised e))"
    unfolding e(1) by (rule call_closed_failure[OF Cons.prems(1) e(2)])
  show ?case
  proof (cases "xs = []")
    case True
    then show ?thesis using one x Cons.prems(4) by auto
  next
    case False
    then have "1 \<le> int (length xs)" by (cases xs) simp_all
    moreover have "failure_count self + (1 + int (length xs)) \<le> failure_threshold self"
      using Cons.prems(4) by simp
    ultimately have lt: "failure_count self + 1 < failure_threshold self" by linarith
    then have s1: "state ?self1 = CLOSED" by simp
    have a1: "all_expected_failures (expected_exception ?self1) xs"
      using Cons.prems(2) by (simp add: all_expected_failures_def)
    have b1: "failure_count ?self1 + int (length xs) \<le> failure_threshold ?self1"
      using Cons.prems(4) by simp
    from Cons.IH[OF s1 a1 False b1] show ?thesis
      using one x False by (simp add: split_beta add.assoc)
  qed
qed

lemma call_open_rejected:
  assumes "state self = OPEN" "t_check - last_failure_time self \<le> recovery_timeout self"
  shows "call self t_check t_fail func = (self, 0, Inl RuntimeError_breaker_open)"
  using assms by (simp add: call_def)

lemma call_open_admitted:
  assumes "state self = OPEN" "t_check - last_failure_time self > recovery_timeout self"
  shows "call self t_check t_fail func
       = call (self\<lparr>state := HALF_OPEN, success_count := 0\<rparr>) t_check t_fail func
     \<and> fst (snd (call self t_check t_fail func)) = 1"
  using assms by (cases func) (simp_all add: call_def Let_def)

lemma call_half_open_success:
  assumes "state self = HALF_OPEN"
  shows "call self t_check t_fail (Returns v)
       = (if 1 \<le> success_count self
          then self\<lparr>success_count := success_count self + 1, state := CLOSED, failure_count := 0\<rparr>
          else self\<lparr>success_count := success_count self + 1\<rparr>,
          1, Inr v)"
  using assms by (simp add: call_def on_success_def Let_def)

lemma call_closed_success:
  assumes "state self = CLOSED"
  shows "call self t_check t_fail (Returns v) = (self\<lparr>failure_count := 0\<rparr>, 1, Inr v)"
  using assms by (simp add: call_def on_success_def Let_def)

lemma call_seq_half_open_two_successes:
  assumes "state self = HALF_OPEN" "0 \<le> success_count self"
  shows "state (fst (call_seq self [(t1, t1', Returns v1), (t2, t2', Returns v2)])) = CLOSED
       \<and> failure_count (fst (call_seq self [(t1, t1', Returns v1), (t2, t2', Returns v2)])) = 0
       \<and> snd (call_seq self [(t1, t1', Returns v1), (t2, t2', Returns v2)]) = 2"
  using assms
  by (cases "1 \<le> success_count self")
     (simp_all add: call_half_open_success call_closed_success)

lemma call_half_open_first_success:
  assumes "state self = HALF_OPEN" "success_count self = 0"
  shows "state (fst (call self t_check t_fail (Returns v))) = HALF_OPEN"
  using assms by (simp add: call_half_open_success)

lemma call_half_open_failure:
  assumes "state self = HALF_OPEN" "breaker_inv self" "expected_exception self e"
  shows "call self t_check t_fail (Raises e)
       = (self\<lparr>failure_count := failure_count self + 1, last_failure_time := t_fail, state := OPEN\<rparr>,
          1, Inl (Raised e))"
  using assms by (simp add: call_def on_failure_def Let_def breaker_inv_def)

lemma breaker_inv_init: "breaker_inv (CircuitBreaker_init threshold recovery expected)"
  by (simp add: breaker_inv_def CircuitBreaker_init_def)

lemma breaker_inv_reset: "breaker_inv (reset self)"
  by (simp add: breaker_inv_def reset_def)

lemma breaker_inv_call:
  assumes "breaker_inv self"
  shows "breaker_inv (fst (call self t_check t_fail func))"
  using assms
  by (cases func; cases "state self")
     (auto simp: breaker_inv_def call_def on_success_def on_failure_def Let_def)



lemma three_failures_open: "fst (call_seq breaker0 three_failures) = breaker_open"
  by (simp add: breaker0_def three_failures_def breaker_open_def CircuitBreaker_init_def
      call_def on_failure_def Let_def)

lemma call_seq_closed_failures_exact:
  assumes "state self = CLOSED"
    and "all_expected_failures (expected_exception self) xs"
    and "xs \<noteq> []"
    and "failure_count self + int (length xs) \<le> failure_threshold self"
  shows "call_seq self xs
       = (self\<lparr>failure_count := failure_count self + int (length xs),
                last_failure_time := fst (snd (last xs)),
                state := (if failure_count self + int (length xs) = failure_threshold self
                          then OPEN else CLOSED)\<rparr>,
          length xs)"
  using assms
proof (induction xs arbitrary: self)
  case Nil
  then show ?case by simp
next
  case (Cons x xs)
  obtain t_check t_fail func where x: "x = (t_check, t_fail, func)" by (cases x)
  from Cons.prems(2) x obtain e where e: "func = Raises e" "expected_exception self e"
    by (auto simp: all_expected_failures_def split: outcome.splits)
  show ?case
  proof (cases "xs = []")
    case True
    show ?thesis
      using True x e Cons.prems(1,4)
      by (auto simp: call_def on_failure_def Let_def)
  next
    case False
    then have "1 \<le> int (length xs)" by (cases xs) simp_all
    moreover have "failure_count self + (1 + int (length xs)) \<le> failure_threshold self"
      using Cons.prems(4) by simp
    ultimately have lt: "failure_count self + 1 < failure_threshold self" by linarith
    let ?self1 = "self\<lparr>failure_count := failure_count self + 1, last_failure_time := t_fail\<rparr>"
    have one: "call self t_check t_fail func = (?self1, 1, Inl (Raised e))"
      using Cons.prems(1) e lt by (simp add: call_def on_failure_def Let_def)
    have s1: "state ?self1 = CLOSED" using Cons.prems(1) by simp
    have a1: "all_expected_failures (expected_exception ?self1) xs"
      using Cons.prems(2) by (simp add: all_expected_failures_def)
    have b1: "failure_count ?self1 + int (length xs) \<le> failure_threshold ?self1"
      using Cons.prems(4) by simp
    from Cons.IH[OF s1 a1 False b1] show ?thesis
      using one x False by (simp add: add.assoc add.commute)
  qed
qed

lemma call_seq_below_threshold:
  assumes "state self = CLOSED"
    and "all_expected_failures (expected_exception self) xs"
    and "failure_count self + int (length xs) < failure_threshold self"
  shows "state (fst (call_seq self xs)) = CLOSED"
proof (cases "xs = []")
  case True
  then show ?thesis using assms(1) by simp
next
  case False
  from assms(3) have "failure_count self + int (length xs) \<le> failure_threshold self" by simp
  from call_seq_closed_failures_exact[OF assms(1,2) False this] assms(3)
  show ?thesis by simp
qed

lemma call_open_admitted_cases:
  assumes "state self = OPEN" "t_check - last_failure_time self > recovery_timeout self"
  shows "call self t_check t_fail (Returns v)
           = (self\<lparr>state := HALF_OPEN, success_count := 1\<rparr>, 1, Inr v)"
    and "\<not> expected_exception self e \<Longrightarrow>
         call self t_check t_fail (Raises e :: ('e, 'a) outcome)
           = (self\<lparr>state := HALF_OPEN, success_count := 0\<rparr>, 1, Inl (Raised e))"
    and "expected_exception self e \<Longrightarrow> breaker_inv self \<Longrightarrow>
         call self t_check t_fail (Raises e :: ('e, 'a) outcome)
           = (self\<lparr>success_count := 0, failure_count := failure_count self + 1,
                    last_failure_time := t_fail, state := OPEN\<rparr>, 1, Inl (Raised e))"
  using assms by (simp_all add: call_def on_success_def on_failure_def Let_def breaker_inv_def)

lemma call_half_open_second_success:
  assumes "state self = HALF_OPEN" "success_count self = 1"
  shows "call self t_check t_fail (Returns v)
       = (self\<lparr>success_count := 2, state := CLOSED, failure_count := 0\<rparr>, 1, Inr v)"
  using assms by (simp add: call_half_open_success)

lemma call_half_open_one_success:
  assumes "state self = HALF_OPEN" "success_count self = 0"
  shows "call self t_check t_fail (Returns v) = (self\<lparr>success_count := 1\<rparr>, 1, Inr v)"
  using assms by (simp add: call_half_open_success)

lemma call_seq_half_open_exact:
  assumes "state self = HALF_OPEN" "success_count self = 0"
  shows "call_seq self [(t1, t1', Returns v1), (t2, t2', Returns v2)]
       = (self\<lparr>success_count := 2, state := CLOSED, failure_count := 0\<rparr>, 2)"
  using assms by (simp add: call_half_open_one_success call_half_open_second_success)


text \<open>
  C2.  \<open>call\<close> follows the three-state step relation.  From the closed state with no
  failures counted, consecutive calls that fail with the expected exception keep the
  breaker closed while they are fewer than \<open>failure_threshold\<close>; when they are
  \<open>failure_threshold\<close> (at least one), each has invoked the operation and the breaker
  is open, with the time of the last failure recorded, so that a next call made not
  more than \<open>recovery_timeout\<close> after it raises the breaker-open error without
  invoking the operation and changes nothing.  Once more than \<open>recovery_timeout\<close> has
  passed, the call is admitted: it invokes the operation and proceeds as from the
  half-open state with \<open>success_count = 0\<close>; a success there leaves the breaker half
  open with one success counted.  From the half-open state with no success counted,
  one success leaves it half open and the second closes the breaker with
  \<open>failure_count = 0\<close>.  A failure with the expected exception in the half-open state
  opens the breaker again and sets \<open>last_failure_time\<close>.  The half-open facts that need
  it are about the states that calls and resets produce from a new breaker: those
  satisfy \<open>breaker_inv\<close>.
\<close>

theorem circuit_breaker_step_relation:
  "(state self = CLOSED \<and> failure_count self = 0
      \<and> all_expected_failures (expected_exception self) xs \<longrightarrow>
      (int (length xs) < failure_threshold self \<longrightarrow> state (fst (call_seq self xs)) = CLOSED)
    \<and> (1 \<le> failure_threshold self \<and> int (length xs) = failure_threshold self \<longrightarrow>
          call_seq self xs
            = (self\<lparr>failure_count := failure_threshold self,
                     last_failure_time := fst (snd (last xs)), state := OPEN\<rparr>, length xs)
        \<and> (t_check - fst (snd (last xs)) \<le> recovery_timeout self \<longrightarrow>
              call (fst (call_seq self xs)) t_check t_fail func
                = (fst (call_seq self xs), 0, Inl RuntimeError_breaker_open))))
 \<and> (state self = OPEN \<and> t_check - last_failure_time self \<le> recovery_timeout self \<longrightarrow>
        call self t_check t_fail func = (self, 0, Inl RuntimeError_breaker_open))
 \<and> (state self = OPEN \<and> recovery_timeout self < t_check - last_failure_time self \<longrightarrow>
        call self t_check t_fail func
          = call (self\<lparr>state := HALF_OPEN, success_count := 0\<rparr>) t_check t_fail func
      \<and> fst (snd (call self t_check t_fail func)) = 1
      \<and> call self t_check t_fail (Returns v)
          = (self\<lparr>state := HALF_OPEN, success_count := 1\<rparr>, 1, Inr v))
 \<and> (state self = HALF_OPEN \<and> success_count self = 0 \<longrightarrow>
        call self t_check t_fail (Returns v) = (self\<lparr>success_count := 1\<rparr>, 1, Inr v)
      \<and> call_seq self [(t1, t1', Returns v1), (t2, t2', Returns v2)]
          = (self\<lparr>success_count := 2, state := CLOSED, failure_count := 0\<rparr>, 2))
 \<and> (state self = HALF_OPEN \<and> breaker_inv self \<longrightarrow>
        state (fst (call_seq self [(t1, t1', Returns v1), (t2, t2', Returns v2)])) = CLOSED
      \<and> failure_count (fst (call_seq self [(t1, t1', Returns v1), (t2, t2', Returns v2)])) = 0)
 \<and> (state self = HALF_OPEN \<and> breaker_inv self \<and> expected_exception self e \<longrightarrow>
        call self t_check t_fail (Raises e)
          = (self\<lparr>failure_count := failure_count self + 1, last_failure_time := t_fail,
                   state := OPEN\<rparr>, 1, Inl (Raised e)))
 \<and> breaker_inv (CircuitBreaker_init threshold recovery expected)
 \<and> (breaker_inv self \<longrightarrow>
        breaker_inv (fst (call self t_check t_fail func)) \<and> breaker_inv (reset self))"
proof -
  have below: "state (fst (call_seq self xs)) = CLOSED"
    if "state self = CLOSED" "failure_count self = 0"
      "all_expected_failures (expected_exception self) xs"
      "int (length xs) < failure_threshold self"
    using call_seq_below_threshold[OF that(1) that(3)] that(2,4) by simp
  have trip: "call_seq self xs
            = (self\<lparr>failure_count := failure_threshold self,
                     last_failure_time := fst (snd (last xs)), state := OPEN\<rparr>, length xs)"
    if "state self = CLOSED" "failure_count self = 0"
      "all_expected_failures (expected_exception self) xs"
      "1 \<le> failure_threshold self" "int (length xs) = failure_threshold self"
  proof -
    from that(4,5) have "xs \<noteq> []" by auto
    moreover from that(2,5) have "failure_count self + int (length xs) \<le> failure_threshold self"
      by simp
    ultimately show ?thesis
      using call_seq_closed_failures_exact[OF that(1) that(3)] that(2,5) by simp
  qed
  have next_rejected: "call (fst (call_seq self xs)) t_check t_fail func
                = (fst (call_seq self xs), 0, Inl RuntimeError_breaker_open)"
    if "state self = CLOSED" "failure_count self = 0"
      "all_expected_failures (expected_exception self) xs"
      "1 \<le> failure_threshold self" "int (length xs) = failure_threshold self"
      "t_check - fst (snd (last xs)) \<le> recovery_timeout self"
    unfolding trip[OF that(1-5)] using that(6) by (simp add: call_open_rejected)
  have admitted: "call self t_check t_fail (Returns v)
          = (self\<lparr>state := HALF_OPEN, success_count := 1\<rparr>, 1, Inr v)"
    if "state self = OPEN" "recovery_timeout self < t_check - last_failure_time self"
    using that by (simp add: call_def on_success_def Let_def)
  have one: "call self t_check t_fail (Returns v) = (self\<lparr>success_count := 1\<rparr>, 1, Inr v)"
    if "state self = HALF_OPEN" "success_count self = 0"
    using that by (rule call_half_open_one_success)
  have two_exact: "call_seq self [(t1, t1', Returns v1), (t2, t2', Returns v2)]
          = (self\<lparr>success_count := 2, state := CLOSED, failure_count := 0\<rparr>, 2)"
    if "state self = HALF_OPEN" "success_count self = 0"
    using that by (rule call_seq_half_open_exact)
  have two: "state (fst (call_seq self [(t1, t1', Returns v1), (t2, t2', Returns v2)])) = CLOSED
      \<and> failure_count (fst (call_seq self [(t1, t1', Returns v1), (t2, t2', Returns v2)])) = 0"
    if "state self = HALF_OPEN" "breaker_inv self"
    using call_seq_half_open_two_successes[OF that(1), of t1 t1' v1 t2 t2' v2] that(2)
    by (simp add: breaker_inv_def)
  show ?thesis
  proof (intro conjI, goal_cases)
    case 1
    show ?case using below trip next_rejected by blast
  next
    case 2
    show ?case using call_open_rejected[of self t_check t_fail func] by blast
  next
    case 3
    show ?case using call_open_admitted[of self t_check t_fail func] admitted by blast
  next
    case 4
    show ?case using one two_exact by blast
  next
    case 5
    show ?case using two by blast
  next
    case 6
    show ?case using call_half_open_failure[of self e t_check t_fail] by blast
  next
    case 7
    show ?case by (rule breaker_inv_init)
  next
    case 8
    show ?case using breaker_inv_call[of self t_check t_fail func] breaker_inv_reset[of self]
      by blast
  qed
qed

theorem circuit_breaker_step_relation_witness:
  "state (fst (call_seq breaker0 (take 2 three_failures))) = CLOSED
   \<and> call_seq breaker0 three_failures = (breaker_open, 3)
   \<and> call (fst (call_seq breaker0 three_failures)) 10 11 (Returns (0::nat))
       = (breaker_open, 0, Inl RuntimeError_breaker_open)
   \<and> call breaker_open 10 10 (Returns (0::nat)) = (breaker_open, 0, Inl RuntimeError_breaker_open)
   \<and> call breaker_open 100 100 (Returns (0::nat))
       = (breaker_half_open\<lparr>success_count := 1\<rparr>, 1, Inr 0)
   \<and> call breaker_half_open 100 100 (Returns (0::nat))
       = (breaker_half_open\<lparr>success_count := 1\<rparr>, 1, Inr 0)
   \<and> call_seq breaker_half_open [(100, 100, Returns (0::nat)), (101, 101, Returns 0)]
       = (breaker_open\<lparr>success_count := 2, state := CLOSED, failure_count := 0\<rparr>, 2)
   \<and> call breaker_half_open 100 101 (Raises True :: (bool, nat) outcome)
       = (breaker_open\<lparr>failure_count := 4, last_failure_time := 101\<rparr>, 1, Inl (Raised True))"
proof -
  have a: "state breaker0 = CLOSED \<and> failure_count breaker0 = 0
      \<and> all_expected_failures (expected_exception breaker0) three_failures"
    by (simp add: breaker0_def CircuitBreaker_init_def three_failures_def
        all_expected_failures_def)
  have a2: "state breaker0 = CLOSED \<and> failure_count breaker0 = 0
      \<and> all_expected_failures (expected_exception breaker0) (take 2 three_failures)"
    by (simp add: breaker0_def CircuitBreaker_init_def three_failures_def
        all_expected_failures_def)
  have len: "1 \<le> failure_threshold breaker0
      \<and> int (length three_failures) = failure_threshold breaker0"
    "int (length (take 2 three_failures)) < failure_threshold breaker0"
    "(10::real) - fst (snd (last three_failures)) \<le> recovery_timeout breaker0"
    by (simp_all add: breaker0_def CircuitBreaker_init_def three_failures_def)
  have b: "state breaker_open = OPEN"
    "10 - last_failure_time breaker_open \<le> recovery_timeout breaker_open"
    "recovery_timeout breaker_open < 100 - last_failure_time breaker_open"
    by (simp_all add: breaker_open_def)
  have c: "state breaker_half_open = HALF_OPEN" "breaker_inv breaker_half_open"
    "expected_exception breaker_half_open True" "success_count breaker_half_open = 0"
    by (simp_all add: breaker_half_open_def breaker_open_def breaker_inv_def)
  note closed_part = circuit_breaker_step_relation[where self = breaker0 and t_check = 10
      and t_fail = 11 and func = "Returns (0::nat)", THEN conjunct1, rule_format]
  have 0: "state (fst (call_seq breaker0 (take 2 three_failures))) = CLOSED"
    by (rule closed_part[OF a2, THEN conjunct1, rule_format]) (rule len(2))
  note tripped = closed_part[OF a, THEN conjunct2, rule_format, OF len(1)]
  have "call_seq breaker0 three_failures
      = (breaker0\<lparr>failure_count := failure_threshold breaker0,
           last_failure_time := fst (snd (last three_failures)), state := OPEN\<rparr>,
         length three_failures)"
    by (rule tripped[THEN conjunct1])
  then have 1: "call_seq breaker0 three_failures = (breaker_open, 3)"
    by (simp add: breaker0_def CircuitBreaker_init_def three_failures_def breaker_open_def)
  have "call (fst (call_seq breaker0 three_failures)) 10 11 (Returns (0::nat))
      = (fst (call_seq breaker0 three_failures), 0, Inl RuntimeError_breaker_open)"
    by (rule tripped[THEN conjunct2, rule_format]) (rule len(3))
  then have 2: "call (fst (call_seq breaker0 three_failures)) 10 11 (Returns (0::nat))
       = (breaker_open, 0, Inl RuntimeError_breaker_open)"
    by (simp add: 1)
  have 3: "call breaker_open 10 10 (Returns (0::nat)) = (breaker_open, 0, Inl RuntimeError_breaker_open)"
    by (rule circuit_breaker_step_relation[where self = breaker_open and t_check = 10,
          THEN conjunct2, THEN conjunct1, rule_format])
       (intro conjI b)
  have "call breaker_open 100 100 (Returns (0::nat))
      = (breaker_open\<lparr>state := HALF_OPEN, success_count := 1\<rparr>, 1, Inr 0)"
    by (rule circuit_breaker_step_relation[where self = breaker_open and t_check = 100
          and func = "Returns (0::nat)",
          THEN conjunct2, THEN conjunct2, THEN conjunct1, rule_format, THEN conjunct2,
          THEN conjunct2])
       (intro conjI b)
  then have 4: "call breaker_open 100 100 (Returns (0::nat))
       = (breaker_half_open\<lparr>success_count := 1\<rparr>, 1, Inr 0)"
    by (simp add: breaker_half_open_def)
  note half = circuit_breaker_step_relation[where self = breaker_half_open,
          THEN conjunct2, THEN conjunct2, THEN conjunct2, THEN conjunct1, rule_format]
  have 5: "call breaker_half_open 100 100 (Returns (0::nat))
       = (breaker_half_open\<lparr>success_count := 1\<rparr>, 1, Inr 0)"
    by (rule half[THEN conjunct1]) (intro conjI c)
  have "call_seq breaker_half_open [(100, 100, Returns (0::nat)), (101, 101, Returns 0)]
       = (breaker_half_open\<lparr>success_count := 2, state := CLOSED, failure_count := 0\<rparr>, 2)"
    by (rule half[THEN conjunct2]) (intro conjI c)
  then have 6: "call_seq breaker_half_open [(100, 100, Returns (0::nat)), (101, 101, Returns 0)]
       = (breaker_open\<lparr>success_count := 2, state := CLOSED, failure_count := 0\<rparr>, 2)"
    by (simp add: breaker_half_open_def)
  have "call breaker_half_open 100 101 (Raises True :: (bool, nat) outcome)
       = (breaker_half_open\<lparr>failure_count := failure_count breaker_half_open + 1,
             last_failure_time := 101, state := OPEN\<rparr>, 1, Inl (Raised True))"
    by (rule circuit_breaker_step_relation[where self = breaker_half_open,
          THEN conjunct2, THEN conjunct2, THEN conjunct2, THEN conjunct2, THEN conjunct2,
          THEN conjunct1, rule_format])
       (intro conjI c)
  then have 7: "call breaker_half_open 100 101 (Raises True :: (bool, nat) outcome)
       = (breaker_open\<lparr>failure_count := 4, last_failure_time := 101\<rparr>, 1, Inl (Raised True))"
    by (simp add: breaker_half_open_def breaker_open_def)
  show ?thesis using 0 1 2 3 4 5 6 7 by simp
qed

end
